theory Spec2Isabelle
  imports Main "HOL-Library.Word"
begin

unbundle bit_operations_syntax

chapter \<open>The attestation server: coordinate codec, key derivation, session manager\<close>

text \<open>
  A shallow embedding of the Go package \<open>sgx_server\<close>: the byte encoding of curve
  points (\<open>marshalPublicKey\<close>, \<open>unmarshalPublicKey\<close>, \<open>reverse\<close>), the key exchange
  and the key derivation (\<open>exchange\<close>, \<open>kdk\<close>, \<open>keyDerivationString\<close>,
  \<open>deriveLabelKeyFromBase\<close>) and the session manager (\<open>NewSessionManager\<close>,
  \<open>getSession\<close>, \<open>NewSession\<close>, \<open>Msg1ToMsg2\<close>, \<open>Msg3ToMsg4\<close>). The definitions
  come first, each after the function of the package it embeds; the properties follow.
  What the package takes from libraries (the arithmetic of the curve, the AES
  permutation, the random source) and from files of its own that define the sessions
  is a parameter of the definitions that use it.
\<close>

section \<open>Bytes, errors and the Go built-ins the package uses\<close>

type_synonym byte = "8 word"

text \<open>
  A Go call either returns, panics (a run-time error such as a slice bound out of
  range), ends the process through \<open>log.Fatal\<close>, or returns an \<open>error\<close> value.
  All three are branches of the model: \<open>Inl\<close> of an \<open>error\<close>.
\<close>

datatype error = Panic string | Fatal string | Err string

text \<open>
  \<open>copy(dst, src)\<close> copies \<open>min(len(dst), len(src))\<close> elements to the front of
  \<open>dst\<close>; the result is \<open>dst\<close> after the call.
\<close>

definition go_copy :: "'a list \<Rightarrow> 'a list \<Rightarrow> 'a list" where
  "go_copy dst src = take (length dst) src @ drop (length src) dst"

text \<open>
  \<open>copy(dst[lo:], src)\<close> on an array \<open>dst\<close>: the slice expression panics unless
  \<open>0 \<le> lo \<le> len(dst)\<close>; otherwise the copy writes into \<open>dst\<close> from index \<open>lo\<close> on.
\<close>

definition copy_from :: "'a list \<Rightarrow> int \<Rightarrow> 'a list \<Rightarrow> error + 'a list" where
  "copy_from dst lo src =
     (if lo < 0 \<or> int (length dst) < lo then Inl (Panic ''slice bounds out of range'')
      else Inr (take (nat lo) dst @ go_copy (drop (nat lo) dst) src))"

text \<open>\<open>a[i] = v\<close>: panics when the index is out of range.\<close>

definition set_index :: "'a list \<Rightarrow> int \<Rightarrow> 'a \<Rightarrow> error + 'a list" where
  "set_index a i v =
     (if i < 0 \<or> int (length a) \<le> i then Inl (Panic ''index out of range'')
      else Inr (a[nat i := v]))"

subsection \<open>\<open>math/big\<close>: \<open>Bytes\<close> and \<open>SetBytes\<close>\<close>

text \<open>
  A \<open>*big.Int\<close> is an unbounded signed integer. \<open>x.Bytes()\<close> is the big-endian
  byte string of \<open>|x|\<close> without leading zero bytes (empty for 0); \<open>x.SetBytes(b)\<close>
  reads \<open>b\<close> as a big-endian unsigned integer.
\<close>

function be_bytes :: "nat \<Rightarrow> byte list" where
  "be_bytes n = (if n = 0 then [] else be_bytes (n div 256) @ [of_nat (n mod 256)])"
  by pat_completeness auto
termination
  by (relation "measure id") auto

declare be_bytes.simps [simp del]

definition Bytes :: "int \<Rightarrow> byte list" where
  "Bytes x = be_bytes (nat \<bar>x\<bar>)"

definition SetBytes :: "byte list \<Rightarrow> int" where
  "SetBytes b = foldl (\<lambda>acc d. acc * 256 + uint d) 0 b"

subsection \<open>Slices and \<open>reverse\<close>\<close>

text \<open>
  A slice is a window of an array: \<open>mem\<close> is the memory that holds the array (or
  several arrays, one after the other), \<open>off\<close> the index of the first element of
  the slice in it and \<open>len\<close> its length. Two slices of one memory may overlap. A
  slice of Go always lies within its array (\<open>in_bounds\<close>). \<open>load\<close> reads the
  elements of a slice; \<open>whole a\<close> is the slice \<open>a[:]\<close> of an array \<open>a\<close>.
\<close>

type_synonym mem = "byte list"

record slice =
  off :: nat
  len :: nat

definition load :: "mem \<Rightarrow> slice \<Rightarrow> byte list" where
  "load m s = take (len s) (drop (off s) m)"

definition in_bounds :: "mem \<Rightarrow> slice \<Rightarrow> bool" where
  "in_bounds m s = (off s + len s \<le> length m)"

definition whole :: "byte list \<Rightarrow> slice" where
  "whole a = \<lparr>off = 0, len = length a\<rparr>"

definition disjoint :: "slice \<Rightarrow> slice \<Rightarrow> bool" where
  "disjoint s t = (off s + len s \<le> off t \<or> off t + len t \<le> off s)"

text \<open>
  \<open>reverse\<close> works in place: it swaps elements of the memory its argument \<open>b\<close>
  points into, and the result is the memory after the call. \<open>left\<close> and \<open>right\<close>
  are Go \<open>int\<close>s (\<open>right\<close> starts at \<open>-1\<close> for an empty slice); \<open>b[i]\<close> is the
  element \<open>off b + i\<close> of the memory; the two-sided assignment reads both elements
  before it writes.
\<close>

function reverse_loop :: "mem \<Rightarrow> slice \<Rightarrow> int \<Rightarrow> int \<Rightarrow> mem" where
  "reverse_loop m b left right =
     (if left < right
      then reverse_loop
             (m[off b + nat left := m ! (off b + nat right),
                off b + nat right := m ! (off b + nat left)])
             b (left + 1) (right - 1)
      else m)"
  by pat_completeness auto
termination
  by (relation "measure (\<lambda>(m, b, left, right). nat (right - left))") auto

declare reverse_loop.simps [simp del]

definition reverse :: "mem \<Rightarrow> slice \<Rightarrow> mem" where
  "reverse m b = reverse_loop m b 0 (int (len b) - 1)"

section \<open>Keys\<close>

datatype Curve = P256

record PublicKey =
  Curve :: Curve
  X :: int
  Y :: int

record PrivateKey = PublicKey +
  D :: int

section \<open>Coordinate codec\<close>

definition marshalPublicKey :: "'a PublicKey_scheme \<Rightarrow> error + (byte list \<times> byte list)" where
  "marshalPublicKey pub =
     (let x32 = replicate 32 (0 :: byte);
          y32 = replicate 32 (0 :: byte);
          xb = Bytes (X pub);
          yb = Bytes (Y pub)
      in case copy_from x32 (32 - int (length xb)) xb of
           Inl e \<Rightarrow> Inl e
         | Inr x32 \<Rightarrow>
             (case copy_from y32 (32 - int (length yb)) yb of
                Inl e \<Rightarrow> Inl e
              | Inr y32 \<Rightarrow> Inr (reverse x32 (whole x32), reverse y32 (whole y32))))"

text \<open>
  \<open>unmarshalPublicKey\<close> gets two slices \<open>xb\<close> and \<open>yb\<close> of the caller's memory
  \<open>m\<close>, reverses them in place, reads the two integers and reverses the slices
  again; it returns the key and the memory as it leaves it.
\<close>

definition unmarshalPublicKey :: "mem \<Rightarrow> slice \<Rightarrow> slice \<Rightarrow> PublicKey \<times> mem" where
  "unmarshalPublicKey m xb yb =
     (let m = reverse m xb;
          m = reverse m yb;
          x = SetBytes (load m xb);
          y = SetBytes (load m yb);
          pub = \<lparr>Curve = P256, X = x, Y = y\<rparr>;
          m = reverse m xb;
          m = reverse m yb
      in (pub, m))"

subsection \<open>The curve P-256\<close>

text \<open>
  The field prime and the coefficient \<open>b\<close> of \<open>elliptic.P256()\<close> (FIPS 186-4,
  D.1.2.3), and the curve's membership test \<open>IsOnCurve\<close>: both coordinates are
  field elements and \<open>y\<^sup>2 = x\<^sup>3 - 3x + b\<close> holds in the field.
\<close>

definition P256_P :: int where
  "P256_P = 2 ^ 256 - 2 ^ 224 + 2 ^ 192 + 2 ^ 96 - 1"

definition P256_B :: int where
  "P256_B = 41058363725152142129326129780047268409114441015993725554835256314039467401291"

definition IsOnCurve :: "int \<Rightarrow> int \<Rightarrow> bool" where
  "IsOnCurve x y =
     (0 \<le> x \<and> x < P256_P \<and> 0 \<le> y \<and> y < P256_P \<and>
      (y * y) mod P256_P = (x * x * x - 3 * x + P256_B) mod P256_P)"

section \<open>Key exchange and key derivation\<close>

text \<open>
  The arithmetic of the curve is the standard library's (\<open>crypto/elliptic\<close>), not
  the package's: \<open>curve\<close> stands for the value of \<open>elliptic.P256()\<close> and is a
  parameter of everything that calls it. \<open>ScalarMult Bx By k\<close> is \<open>k\<close> times the
  point \<open>(Bx, By)\<close>, \<open>ScalarBaseMult k\<close> is \<open>k\<close> times the base point; \<open>k\<close> is
  a big-endian byte string.
\<close>

record elliptic_Curve =
  ScalarMult :: "int \<Rightarrow> int \<Rightarrow> byte list \<Rightarrow> int \<times> int"
  ScalarBaseMult :: "byte list \<Rightarrow> int \<times> int"

text \<open>
  \<open>exchange\<close>. The line printed to standard output when the encoding of \<open>x\<close> is
  shorter than 32 bytes changes no value and is left out.
\<close>

definition exchange :: "elliptic_Curve \<Rightarrow> PrivateKey \<Rightarrow> 'a PublicKey_scheme \<Rightarrow> error + byte list" where
  "exchange curve mine peer =
     (let x = fst (ScalarMult curve (X peer) (Y peer) (Bytes (D mine)));
          xb = Bytes x;
          ret = replicate 32 (0 :: byte)
      in case copy_from ret (32 - int (length xb)) xb of
           Inl e \<Rightarrow> Inl e
         | Inr ret \<Rightarrow> Inr (reverse ret (whole ret)))"

subsection \<open>\<open>crypto/aes\<close> and \<open>github.com/aead/cmac\<close>\<close>

text \<open>
  A block of AES is 128 bits. The keyed permutation of AES is the standard library's
  and is a parameter, \<open>aes\<close>: \<open>aes key\<close> encrypts one block under \<open>key\<close>.
  \<open>aes.NewCipher\<close> accepts keys of 16, 24 and 32 bytes and returns an error for any
  other length.
\<close>

type_synonym block = "128 word"

definition aes_BlockSize :: int where
  "aes_BlockSize = 16"

definition aes_NewCipher :: "(byte list \<Rightarrow> block \<Rightarrow> block) \<Rightarrow> byte list \<Rightarrow> error + (block \<Rightarrow> block)" where
  "aes_NewCipher aes key =
     (if length key = 16 \<or> length key = 24 \<or> length key = 32 then Inr (aes key)
      else Inl (Err ''crypto/aes: invalid key size''))"

text \<open>Blocks and byte strings, big-endian.\<close>

definition block_of_bytes :: "byte list \<Rightarrow> block" where
  "block_of_bytes bs = foldl (\<lambda>acc d. push_bit 8 acc OR ucast d) 0 bs"

definition bytes_of_block :: "block \<Rightarrow> byte list" where
  "bytes_of_block w = map (\<lambda>i. ucast (drop_bit (8 * (15 - i)) w)) [0..<16]"

text \<open>
  Modelled from the spec: the one-key CBC-MAC of NIST SP 800-38B over a 128-bit block
  cipher \<open>E\<close>, which the package calls through \<open>cmac.Sum\<close> of the library
  \<open>github.com/aead/cmac\<close>. \<open>dbl\<close> doubles a block in the field of 2 to the 128 elements (the subkey
  step), \<open>cmac_chain\<close> is the CBC chain with the last block masked by \<open>K1\<close> when it is
  complete and padded with \<open>0x80 0x00 \<dots>\<close> and masked by \<open>K2\<close> otherwise.
\<close>

definition dbl :: "block \<Rightarrow> block" where
  "dbl x = (if bit x 127 then push_bit 1 x XOR 0x87 else push_bit 1 x)"

function cmac_chain :: "(block \<Rightarrow> block) \<Rightarrow> block \<Rightarrow> block \<Rightarrow> block \<Rightarrow> byte list \<Rightarrow> block" where
  "cmac_chain E K1 K2 c m =
     (if 16 < length m
      then cmac_chain E K1 K2 (E (c XOR block_of_bytes (take 16 m))) (drop 16 m)
      else if length m = 16 then E (c XOR block_of_bytes m XOR K1)
      else E (c XOR block_of_bytes (m @ 0x80 # replicate (15 - length m) 0) XOR K2))"
  by pat_completeness auto
termination
  by (relation "measure (\<lambda>(E, K1, K2, c, m). length m)") auto

declare cmac_chain.simps [simp del]

definition CMAC :: "(block \<Rightarrow> block) \<Rightarrow> byte list \<Rightarrow> byte list" where
  "CMAC E msg =
     (let K1 = dbl (E 0);
          K2 = dbl K1
      in bytes_of_block (cmac_chain E K1 K2 0 msg))"

text \<open>
  \<open>cmac.Sum(msg, c, tagsize)\<close>: an error unless \<open>0 < tagsize \<le> c.BlockSize()\<close>,
  otherwise the first \<open>tagsize\<close> bytes of the CMAC of \<open>msg\<close> under \<open>c\<close>.
\<close>

definition cmac_Sum :: "byte list \<Rightarrow> (block \<Rightarrow> block) \<Rightarrow> int \<Rightarrow> error + byte list" where
  "cmac_Sum msg c tagsize =
     (if tagsize \<le> 0 \<or> aes_BlockSize < tagsize
      then Inl (Err ''tag size is zero or greater than cipher blocksize'')
      else Inr (take (nat tagsize) (CMAC c msg)))"

subsection \<open>\<open>kdk\<close>, \<open>keyDerivationString\<close>, \<open>deriveLabelKeyFromBase\<close>\<close>

definition kdk ::
  "(byte list \<Rightarrow> block \<Rightarrow> block) \<Rightarrow> elliptic_Curve \<Rightarrow> PrivateKey \<Rightarrow> 'a PublicKey_scheme \<Rightarrow> error + byte list" where
  "kdk aes curve mine peer =
     (let cmac_key = replicate 16 (0 :: byte)
      in case exchange curve mine peer of
           Inl e \<Rightarrow> Inl e
         | Inr shared \<Rightarrow>
             (case aes_NewCipher aes cmac_key of
                Inl err \<Rightarrow> Inl (Fatal ''Could not create AES for CMAC'')
              | Inr block \<Rightarrow>
                  (case cmac_Sum shared block aes_BlockSize of
                     Inl err \<Rightarrow> Inl (Fatal ''Could not derive the KDK'')
                   | Inr key \<Rightarrow> Inr key)))"

definition keyDerivationString :: "byte list \<Rightarrow> error + byte list" where
  "keyDerivationString label =
     (let out = replicate (4 + length label) (0 :: byte)
      in case copy_from out 1 label of
           Inl e \<Rightarrow> Inl e
         | Inr out \<Rightarrow>
             (case set_index out 0 1 of
                Inl e \<Rightarrow> Inl e
              | Inr out \<Rightarrow> set_index out (int (length out) - 2) 128))"

definition deriveLabelKeyFromBase ::
  "(byte list \<Rightarrow> block \<Rightarrow> block) \<Rightarrow> byte list \<Rightarrow> byte list \<Rightarrow> error + byte list" where
  "deriveLabelKeyFromBase aes base label =
     (case aes_NewCipher aes base of
        Inl err \<Rightarrow> Inl (Fatal ''Could not create AES for CMAC'')
      | Inr block \<Rightarrow>
          (case keyDerivationString label of
             Inl e \<Rightarrow> Inl e
           | Inr s \<Rightarrow>
               (case cmac_Sum s block aes_BlockSize of
                  Inl err \<Rightarrow> Inl (Fatal ''Could not derive the KDK'')
                | Inr key \<Rightarrow> Inr key)))"

section \<open>Session manager\<close>

text \<open>
  The session table is a Go map from \<open>uint64\<close> to \<open>*Session\<close>. A key is absent
  (\<open>None\<close>), or present with a nil pointer (\<open>Some None\<close>), or present with a
  pointer to a session (\<open>Some (Some s)\<close>, \<open>s\<close> the state of that session). Every
  session pointer is made by one call of \<open>NewSession\<close> and is held by the table
  alone, so the model keeps the session's state in the table entry. The lock
  \<open>sLock\<close> is left out: the calls of the model run one after the other.
\<close>

type_synonym uint64 = "64 word"

record ('s, 'ias) SessionManager =
  sessions :: "uint64 \<rightharpoonup> 's option"
  mrenclaves :: "byte list list"
  spid :: "byte list"
  longTermKey :: PrivateKey
  ias :: 'ias

record Msg1 =
  SessionId :: uint64

record Msg3 =
  SessionId :: uint64

record Challenge =
  SessionId :: uint64
  Challenge :: "byte list"

text \<open>
  The type \<open>Session\<close>, its constructor \<open>NewSession\<close>, its four methods and
  \<open>NewIAS\<close> are defined in other files of the package; they are parameters. A method gets its receiver (\<open>None\<close> for a nil pointer) and returns its
  results together with its effect on the session the receiver points to, a function
  on the session's state: a method called on a nil pointer has no session to change.
  The fields of the messages other than \<open>SessionId\<close> are the \<open>more\<close> part of the
  records.
\<close>

record ('s, 'ias, 'a, 'b, 'm2, 'm4) Session_api =
  NewIAS :: "bool \<Rightarrow> string \<Rightarrow> string \<Rightarrow> 'ias"
  NewSession :: "byte list list \<Rightarrow> uint64 \<Rightarrow> byte list \<Rightarrow> PrivateKey \<Rightarrow> 'ias \<Rightarrow> 's"
  ProcessMsg1 :: "'s option \<Rightarrow> 'a Msg1_scheme \<Rightarrow> error option \<times> ('s \<Rightarrow> 's)"
  CreateMsg2 :: "'s option \<Rightarrow> (error + 'm2) \<times> ('s \<Rightarrow> 's)"
  ProcessMsg3 :: "'s option \<Rightarrow> 'b Msg3_scheme \<Rightarrow> error option \<times> ('s \<Rightarrow> 's)"
  CreateMsg4 :: "'s option \<Rightarrow> (error + 'm4) \<times> ('s \<Rightarrow> 's)"

definition NewSessionManager ::
  "('s, 'ias, 'a, 'b, 'm2, 'm4) Session_api \<Rightarrow> bool \<Rightarrow> string \<Rightarrow> string \<Rightarrow> byte list list \<Rightarrow>
     byte list \<Rightarrow> PrivateKey \<Rightarrow> ('s, 'ias) SessionManager" where
  "NewSessionManager api release iasKey iasPub mrenclaves' spid' longTermKey' =
     (let sessions' = Map.empty;
          sessions' = sessions'(0 \<mapsto> None)
      in \<lparr>sessions = sessions',
          mrenclaves = mrenclaves',
          spid = spid',
          longTermKey = longTermKey',
          ias = NewIAS api release iasKey iasPub\<rparr>)"

definition getSession :: "('s, 'ias) SessionManager \<Rightarrow> uint64 \<Rightarrow> 's option \<times> bool" where
  "getSession as id' = (case sessions as id' of None \<Rightarrow> (None, False) | Some session \<Rightarrow> (session, True))"

subsection \<open>\<open>crypto/rand\<close> and \<open>encoding/binary\<close>\<close>

text \<open>
  The random source is a list of the outcomes of the reads still to come: a read
  either fails with an error or delivers bytes. \<open>rand.Read(buf)\<close> takes the next
  outcome and returns \<open>(n, err)\<close> and the buffer after the call.
\<close>

datatype rand_outcome = RandErr error | RandBytes "byte list"

fun rand_Read :: "byte list \<Rightarrow> rand_outcome \<Rightarrow> (int \<times> error option) \<times> byte list" where
  "rand_Read buf (RandErr e) = ((0, Some e), buf)"
| "rand_Read buf (RandBytes d) = ((int (min (length buf) (length d)), None), go_copy buf d)"

definition BigEndian_Uint64 :: "byte list \<Rightarrow> uint64" where
  "BigEndian_Uint64 b = foldl (\<lambda>acc d. push_bit 8 acc OR ucast d) 0 (take 8 b)"

subsection \<open>\<open>NewSession\<close>, \<open>Msg1ToMsg2\<close>, \<open>Msg3ToMsg4\<close>\<close>

text \<open>
  \<open>SessionManager_NewSession\<close> is the method \<open>NewSession\<close> of the manager (the
  plain name is the constructor of \<open>Session\<close>, which the method calls), and
  \<open>draw_id\<close> is its loop that draws session ids. It runs for as long as the
  source delivers ids that are in the table; the result is \<open>None\<close> when the outcomes
  supplied run out before the loop has ended.
\<close>

fun draw_id ::
  "('s, 'ias) SessionManager \<Rightarrow> byte list \<Rightarrow> rand_outcome list \<Rightarrow>
     ((error + uint64) \<times> rand_outcome list) option" where
  "draw_id as bytes [] = None"
| "draw_id as bytes (r # rs) =
     (case rand_Read bytes r of
        ((n, Some err), bytes) \<Rightarrow> Some (Inl err, rs)
      | ((n, None), bytes) \<Rightarrow>
          if n \<noteq> 8 then Some (Inl (Err ''Could not generate a session id''), rs)
          else let id' = BigEndian_Uint64 bytes
               in if \<not> snd (getSession as id') then Some (Inr id', rs)
                  else draw_id as bytes rs)"

definition SessionManager_NewSession ::
  "('s, 'ias, 'a, 'b, 'm2, 'm4) Session_api \<Rightarrow> ('s, 'ias) SessionManager \<Rightarrow> rand_outcome list \<Rightarrow>
     ((error + Challenge) \<times> ('s, 'ias) SessionManager \<times> rand_outcome list) option" where
  "SessionManager_NewSession api as rs =
     (case rs of
        [] \<Rightarrow> None
      | r # rs \<Rightarrow>
          (case rand_Read (replicate 32 0) r of
             ((n, Some err), challenge) \<Rightarrow> Some (Inl err, as, rs)
           | ((n, None), challenge) \<Rightarrow>
               if n \<noteq> 32 then Some (Inl (Err ''Could not generate a challenge''), as, rs)
               else (case draw_id as (replicate 8 0) rs of
                       None \<Rightarrow> None
                     | Some (Inl err, rs) \<Rightarrow> Some (Inl err, as, rs)
                     | Some (Inr id', rs) \<Rightarrow>
                         Some (Inr \<lparr>SessionId = id', Challenge = challenge\<rparr>,
                               as\<lparr>sessions := (sessions as)
                                    (id' \<mapsto> Some (NewSession api (mrenclaves as) id' (spid as)
                                                  (longTermKey as) (ias as)))\<rparr>,
                               rs))))"

text \<open>
  \<open>put\<close> writes the state of the session a method has worked on back to the entry
  it was read from.
\<close>

definition put :: "('s, 'ias) SessionManager \<Rightarrow> uint64 \<Rightarrow> 's option \<Rightarrow> ('s, 'ias) SessionManager" where
  "put as id' session = as\<lparr>sessions := (sessions as)(id' \<mapsto> session)\<rparr>"

definition Msg1ToMsg2 ::
  "('s, 'ias, 'a, 'b, 'm2, 'm4) Session_api \<Rightarrow> ('s, 'ias) SessionManager \<Rightarrow> 'a Msg1_scheme \<Rightarrow>
     (error + 'm2) \<times> ('s, 'ias) SessionManager" where
  "Msg1ToMsg2 api as msg1 =
     (case getSession as (Msg1.SessionId msg1) of
        (session, ok) \<Rightarrow>
          if \<not> ok then (Inl (Err ''Session not found''), as)
          else (case ProcessMsg1 api session msg1 of
                  (Some err, f) \<Rightarrow>
                    (Inl err, put as (Msg1.SessionId msg1) (map_option f session))
                | (None, f) \<Rightarrow>
                    (case CreateMsg2 api (map_option f session) of
                       (r, g) \<Rightarrow>
                         (r, put as (Msg1.SessionId msg1) (map_option (g \<circ> f) session)))))"

definition Msg3ToMsg4 ::
  "('s, 'ias, 'a, 'b, 'm2, 'm4) Session_api \<Rightarrow> ('s, 'ias) SessionManager \<Rightarrow> 'b Msg3_scheme \<Rightarrow>
     (error + 'm4) \<times> ('s, 'ias) SessionManager" where
  "Msg3ToMsg4 api as msg3 =
     (case getSession as (Msg3.SessionId msg3) of
        (session, ok) \<Rightarrow>
          if \<not> ok then (Inl (Err ''Session not found''), as)
          else (case ProcessMsg3 api session msg3 of
                  (Some err, f) \<Rightarrow>
                    (Inl err, put as (Msg3.SessionId msg3) (map_option f session))
                | (None, f) \<Rightarrow>
                    (case CreateMsg4 api (map_option f session) of
                       (r, g) \<Rightarrow>
                         (r, put as (Msg3.SessionId msg3) (map_option (g \<circ> f) session)))))"

subsection \<open>Runs of the session manager\<close>

text \<open>
  \<open>new_sessions api n\<close> is \<open>n\<close> calls of \<open>NewSession\<close> one after the other, each
  on the state the call before it has left, with the results of the calls in their
  order; \<open>session_ids\<close> are the ids of the challenges among the results.
\<close>

fun new_sessions ::
  "('s, 'ias, 'a, 'b, 'm2, 'm4) Session_api \<Rightarrow> nat \<Rightarrow> ('s, 'ias) SessionManager \<Rightarrow> rand_outcome list \<Rightarrow>
     ((error + Challenge) list \<times> ('s, 'ias) SessionManager \<times> rand_outcome list) option" where
  "new_sessions api 0 as rs = Some ([], as, rs)"
| "new_sessions api (Suc n) as rs =
     (case SessionManager_NewSession api as rs of
        None \<Rightarrow> None
      | Some (r, as, rs) \<Rightarrow>
          (case new_sessions api n as rs of
             None \<Rightarrow> None
           | Some (res, as, rs) \<Rightarrow> Some (r # res, as, rs)))"

fun session_ids :: "(error + Challenge) list \<Rightarrow> uint64 list" where
  "session_ids [] = []"
| "session_ids (Inl e # res) = session_ids res"
| "session_ids (Inr ch # res) = Challenge.SessionId ch # session_ids res"

text \<open>
  \<open>evolves api as as'\<close>: the state \<open>as'\<close> comes from \<open>as\<close> by calls of the three
  methods of the manager, with any arguments. A state is reachable when it comes
  from a state that \<open>NewSessionManager\<close> has returned.
\<close>

inductive evolves ::
  "('s, 'ias, 'a, 'b, 'm2, 'm4) Session_api \<Rightarrow> ('s, 'ias) SessionManager \<Rightarrow>
     ('s, 'ias) SessionManager \<Rightarrow> bool"
  for api :: "('s, 'ias, 'a, 'b, 'm2, 'm4) Session_api" and as :: "('s, 'ias) SessionManager" where
  start: "evolves api as as"
| new: "evolves api as as1 \<Longrightarrow> SessionManager_NewSession api as1 rs = Some (c, as2, rs') \<Longrightarrow>
        evolves api as as2"
| msg1: "evolves api as as1 \<Longrightarrow> Msg1ToMsg2 api as1 msg1 = (r2, as2) \<Longrightarrow> evolves api as as2"
| msg3: "evolves api as as1 \<Longrightarrow> Msg3ToMsg4 api as1 msg3 = (r4, as2) \<Longrightarrow> evolves api as as2"

definition reachable ::
  "('s, 'ias, 'a, 'b, 'm2, 'm4) Session_api \<Rightarrow> ('s, 'ias) SessionManager \<Rightarrow> bool" where
  "reachable api as =
     (\<exists>release iasKey iasPub mrenclaves' spid' longTermKey'.
        evolves api (NewSessionManager api release iasKey iasPub mrenclaves' spid' longTermKey') as)"

section \<open>The base point of P-256\<close>

text \<open>The base point of \<open>elliptic.P256()\<close> (FIPS 186-4, D.1.2.3).\<close>

definition P256_Gx :: int where
  "P256_Gx = 48439561293906451759052585252797914202762949526041747995844080717082404635286"

definition P256_Gy :: int where
  "P256_Gy = 36134250956749795798585127919587881956611106672985015071877198253568414405109"

section \<open>Data of the examples\<close>

text \<open>
  A point of P-256 whose \<open>x\<close>-coordinate has a one-byte encoding, and its wire
  form.
\<close>

definition Y5 :: int where
  "Y5 = 31468013646237722594854082025316614106172411895747863909393730389177298123724"

definition x32_5 :: "byte list" where
  "x32_5 = 5 # replicate 31 0"

definition y32_5 :: "byte list" where
  "y32_5 = [204, 251, 72, 50, 8, 92, 65, 51, 197, 163, 217, 100, 60, 80, 202, 17, 222, 122, 129,
            153, 206, 59, 145, 254, 6, 24, 88, 170, 185, 67, 146, 69]"

text \<open>A memory of 33 bytes, for two 32-byte slices that overlap in 31 bytes.\<close>

definition mem33 :: mem where
  "mem33 = [0, 1, 2, 3, 4, 5, 6, 7, 8, 9, 10, 11, 12, 13, 14, 15, 16, 17, 18, 19, 20, 21, 22, 23,
            24, 25, 26, 27, 28, 29, 30, 31, 32]"

text \<open>
  An instance of the parameter \<open>curve\<close> for the examples: the additive group of the
  pairs of field elements, with the interface of a curve and the base point of P-256.
  On the scalar 1 it returns the point it is given, as P-256 does.
\<close>

definition pairs_curve :: elliptic_Curve where
  "pairs_curve =
     \<lparr>ScalarMult = (\<lambda>Bx By k. ((SetBytes k * Bx) mod P256_P, (SetBytes k * By) mod P256_P)),
      ScalarBaseMult = (\<lambda>k. ((SetBytes k * P256_Gx) mod P256_P, (SetBytes k * P256_Gy) mod P256_P))\<rparr>"

text \<open>
  A private key with the scalar 1, whose point is the base point, and the public key
  with the short \<open>x\<close>-coordinate.
\<close>

definition keyA :: PrivateKey where
  "keyA = \<lparr>Curve = P256, X = P256_Gx, Y = P256_Gy, D = 1\<rparr>"

definition peer5 :: PublicKey where
  "peer5 = \<lparr>Curve = P256, X = 5, Y = Y5\<rparr>"

text \<open>
  A manager as \<open>NewSessionManager\<close> returns it, and outcomes of the random source:
  32 bytes for a challenge, the id 0, and the ids 7 and 9.
\<close>

definition manager0 :: "('s, 'ias, 'a, 'b, 'm2, 'm4) Session_api \<Rightarrow> ('s, 'ias) SessionManager" where
  "manager0 api = NewSessionManager api False [] [] [] (replicate 16 0) keyA"

definition rand_id0 :: rand_outcome where
  "rand_id0 = RandBytes [0, 0, 0, 0, 0, 0, 0, 0]"

definition rand_id7 :: rand_outcome where
  "rand_id7 = RandBytes [0, 0, 0, 0, 0, 0, 0, 7]"

definition rand_id9 :: rand_outcome where
  "rand_id9 = RandBytes [0, 0, 0, 0, 0, 0, 0, 9]"

section \<open>Properties of the built-ins\<close>

lemma length_go_copy: "length (go_copy dst src) = length dst"
  by (simp add: go_copy_def)

lemma SetBytes_append: "SetBytes (xs @ [d]) = SetBytes xs * 256 + uint d"
  by (simp add: SetBytes_def)

lemma uint_byte_of_nat: "uint (of_nat (n mod 256) :: byte) = int (n mod 256)"
  by (simp add: uint_nat unat_of_nat)

lemma SetBytes_be_bytes: "SetBytes (be_bytes n) = int n"
proof (induction n rule: be_bytes.induct)
  case (1 n)
  show ?case
  proof (cases "n = 0")
    case True
    then show ?thesis by (subst be_bytes.simps) (simp add: SetBytes_def)
  next
    case False
    have "SetBytes (be_bytes n) = SetBytes (be_bytes (n div 256)) * 256 + int (n mod 256)"
      using False by (subst be_bytes.simps) (simp add: SetBytes_append uint_byte_of_nat)
    also have "\<dots> = int (n div 256) * 256 + int (n mod 256)"
      using 1 False by simp
    also have "\<dots> = int n"
      by (simp add: of_nat_div of_nat_mod)
    finally show ?thesis .
  qed
qed

lemma SetBytes_zeros: "SetBytes (replicate k 0 @ xs) = SetBytes xs"
proof -
  have "foldl (\<lambda>acc d. acc * 256 + uint d) 0 (replicate k (0::byte)) = (0::int)"
    by (induction k) simp_all
  then show ?thesis by (simp add: SetBytes_def)
qed

lemma length_be_bytes: "n < 256 ^ k \<Longrightarrow> length (be_bytes n) \<le> k"
proof (induction k arbitrary: n)
  case 0
  then show ?case by (subst be_bytes.simps) simp
next
  case (Suc k)
  show ?case
  proof (cases "n = 0")
    case True
    then show ?thesis by (subst be_bytes.simps) simp
  next
    case False
    from Suc.prems have "n div 256 < 256 ^ k"
      by (simp add: less_mult_imp_div_less mult.commute)
    then have "length (be_bytes (n div 256)) \<le> k" by (rule Suc.IH)
    then show ?thesis using False by (subst be_bytes.simps) simp
  qed
qed

lemma byte_of_nat_nonzero:
  assumes "0 < n" "n < 256"
  shows "(of_nat n :: byte) \<noteq> 0"
proof
  assume "(of_nat n :: byte) = 0"
  then have "unat (of_nat n :: byte) = 0" by simp
  moreover have "unat (of_nat n :: byte) = n" using assms(2) by (simp add: unat_of_nat)
  ultimately show False using assms(1) by simp
qed

lemma hd_be_bytes: "0 < n \<Longrightarrow> be_bytes n \<noteq> [] \<and> hd (be_bytes n) \<noteq> 0"
proof (induction n rule: be_bytes.induct)
  case (1 n)
  show ?case
  proof (cases "n div 256 = 0")
    case True
    then have "n < 256" using "1.prems" by (simp add: div_eq_0_iff)
    then have "be_bytes n = [of_nat n]"
      using "1.prems" True by (subst be_bytes.simps, subst be_bytes.simps) simp
    then show ?thesis using "1.prems" \<open>n < 256\<close> by (simp add: byte_of_nat_nonzero)
  next
    case False
    then have ih: "be_bytes (n div 256) \<noteq> [] \<and> hd (be_bytes (n div 256)) \<noteq> 0"
      using "1.IH" "1.prems" by simp
    have "be_bytes n = be_bytes (n div 256) @ [of_nat (n mod 256)]"
      using "1.prems" by (subst be_bytes.simps) simp
    with ih show ?thesis by simp
  qed
qed

lemma pad_after_differs:
  assumes "bs \<noteq> []" "hd bs \<noteq> (0 :: byte)" "0 < k"
  shows "rev (replicate k 0 @ bs) \<noteq> replicate k 0 @ rev bs"
proof
  assume "rev (replicate k 0 @ bs) = replicate k 0 @ rev bs"
  then have "last (rev bs @ replicate k 0) = last (replicate k 0 @ rev bs)" by simp
  moreover have "last (rev bs @ replicate k 0) = 0" using assms(3) by simp
  moreover have "last (replicate k 0 @ rev bs) = hd bs"
    using assms(1) by (simp add: last_rev)
  ultimately show False using assms(2) by simp
qed

lemma reverse_loop_mid:
  assumes "off b \<le> length pre"
  shows "reverse_loop (pre @ mid @ post) b (int (length pre) - int (off b))
           (int (length pre) - int (off b) + int (length mid) - 1)
         = pre @ rev mid @ post"
  using assms
proof (induction "length mid" arbitrary: mid pre post rule: less_induct)
  case less
  have o: "off b + nat (int (length pre) - int (off b)) = length pre"
    using less.prems by simp
  consider "mid = []" | x where "mid = [x]" | x m y where "mid = x # m @ [y]"
  proof (cases mid)
    case Nil
    then show ?thesis using that by simp
  next
    case (Cons x t)
    then show ?thesis using that by (cases t rule: rev_cases) auto
  qed
  then show ?case
  proof cases
    case 1
    then show ?thesis by (subst reverse_loop.simps) simp
  next
    case 2
    then show ?thesis by (subst reverse_loop.simps) simp
  next
    case 3
    let ?m = "pre @ mid @ post"
    let ?l = "int (length pre) - int (off b)"
    have r: "off b + nat (?l + int (length mid) - 1) = length pre + length m + 1"
      using less.prems 3 by simp
    have l: "?m ! length pre = x" using 3 by (simp add: nth_append)
    have r': "?m ! (length pre + length m + 1) = y"
      using 3 by (simp add: nth_append)
    have upd: "?m[length pre := y, length pre + length m + 1 := x] = (pre @ [y]) @ m @ ([x] @ post)"
      using 3 by (simp add: list_update_append nth_append)
    have lt: "?l < ?l + int (length mid) - 1" using 3 by simp
    have "reverse_loop ?m b ?l (?l + int (length mid) - 1)
            = reverse_loop (?m[length pre := y, length pre + length m + 1 := x]) b
                (?l + 1) (?l + int (length mid) - 1 - 1)"
      by (subst reverse_loop.simps) (simp only: lt if_True o r l r')
    also have "\<dots> = reverse_loop ((pre @ [y]) @ m @ ([x] @ post)) b
                (int (length (pre @ [y])) - int (off b))
                (int (length (pre @ [y])) - int (off b) + int (length m) - 1)"
    proof -
      have e1: "?l + 1 = int (length (pre @ [y])) - int (off b)" by simp
      have e2: "?l + int (length mid) - 1 - 1 = int (length (pre @ [y])) - int (off b) + int (length m) - 1"
        using 3 by simp
      show ?thesis by (simp only: upd e1 e2)
    qed
    also have "\<dots> = (pre @ [y]) @ rev m @ ([x] @ post)"
      using 3 less.prems by (intro less) simp_all
    finally show ?thesis using 3 by simp
  qed
qed

lemma reverse_eq:
  assumes "in_bounds m s"
  shows "reverse m s = take (off s) m @ rev (take (len s) (drop (off s) m)) @ drop (off s + len s) m"
proof -
  let ?pre = "take (off s) m" and ?mid = "take (len s) (drop (off s) m)"
    and ?post = "drop (off s + len s) m"
  have lp: "length ?pre = off s" and lm: "length ?mid = len s"
    using assms by (simp_all add: in_bounds_def)
  have m: "m = ?pre @ ?mid @ ?post"
    by (metis add.commute append_take_drop_id drop_drop)
  have "reverse (?pre @ ?mid @ ?post) s = ?pre @ rev ?mid @ ?post"
    using reverse_loop_mid [of s ?pre ?mid ?post] lp lm by (simp add: reverse_def)
  with m show ?thesis by simp
qed

lemma reverse_whole: "reverse a (whole a) = rev a"
  using reverse_eq [of a "whole a"] by (simp add: whole_def in_bounds_def)

section \<open>Slices of a memory\<close>

lemma length_load: "in_bounds m s \<Longrightarrow> length (load m s) = len s"
  by (simp add: load_def in_bounds_def)

lemma nth_load: "in_bounds m s \<Longrightarrow> j < len s \<Longrightarrow> load m s ! j = m ! (off s + j)"
  by (simp add: load_def in_bounds_def)

lemma length_reverse: "in_bounds m s \<Longrightarrow> length (reverse m s) = length m"
  by (simp add: reverse_eq load_def in_bounds_def)

lemma in_bounds_reverse: "in_bounds m s \<Longrightarrow> in_bounds (reverse m s) t = in_bounds m t"
  by (simp add: in_bounds_def length_reverse [unfolded in_bounds_def])

lemma nth_reverse:
  assumes "in_bounds m s" and "i < length m"
  shows "reverse m s ! i =
           (if off s \<le> i \<and> i < off s + len s then m ! (off s + (off s + len s - 1 - i)) else m ! i)"
proof -
  have L: "length (load m s) = len s" using assms by (simp add: length_load)
  have T: "length (take (off s) m) = off s" using assms by (simp add: in_bounds_def)
  consider "i < off s" | "off s \<le> i" "i < off s + len s" | "off s + len s \<le> i"
    by linarith
  then show ?thesis
  proof cases
    case 1
    then show ?thesis
      using T assms(1) by (simp add: reverse_eq load_def nth_append)
  next
    case 2
    then have d: "i - off s < len s" by linarith
    have "reverse m s ! i = rev (load m s) ! (i - off s)"
      using 2 d T L assms(1) by (simp add: reverse_eq load_def nth_append)
    also have "\<dots> = load m s ! (len s - Suc (i - off s))"
      using 2 L by (simp add: rev_nth)
    also have "\<dots> = m ! (off s + (len s - Suc (i - off s)))"
      using 2 assms by (simp add: nth_load)
    also have "off s + (len s - Suc (i - off s)) = off s + (off s + len s - 1 - i)"
      using 2 by simp
    finally show ?thesis using 2 by simp
  next
    case 3
    then have d: "\<not> i - off s < len s" "\<not> i < off s" by linarith+
    have "reverse m s ! i = drop (off s + len s) m ! (i - off s - len s)"
      using 3 d T L assms(1) by (simp add: reverse_eq load_def nth_append)
    also have "\<dots> = m ! i"
      using 3 assms by (simp add: in_bounds_def)
    finally show ?thesis using 3 by simp
  qed
qed

lemma reverse_involution:
  assumes "in_bounds m s"
  shows "reverse (reverse m s) s = m"
proof (rule nth_equalityI)
  show "length (reverse (reverse m s) s) = length m"
    using assms by (simp add: length_reverse in_bounds_reverse)
next
  fix i assume "i < length (reverse (reverse m s) s)"
  then have i: "i < length m"
    using assms by (simp add: length_reverse in_bounds_reverse)
  have b: "in_bounds (reverse m s) s"
    using assms by (simp add: in_bounds_reverse)
  show "reverse (reverse m s) s ! i = m ! i"
    using assms i b
    by (auto simp: nth_reverse length_reverse in_bounds_def)
qed

lemma reverse_commute:
  assumes "in_bounds m s" "in_bounds m t" "disjoint s t"
  shows "reverse (reverse m s) t = reverse (reverse m t) s"
proof (rule nth_equalityI)
  show "length (reverse (reverse m s) t) = length (reverse (reverse m t) s)"
    using assms by (simp add: length_reverse in_bounds_reverse)
next
  fix i assume "i < length (reverse (reverse m s) t)"
  then have i: "i < length m"
    using assms by (simp add: length_reverse in_bounds_reverse)
  have b: "in_bounds (reverse m s) t" "in_bounds (reverse m t) s"
    using assms by (simp_all add: in_bounds_reverse)
  show "reverse (reverse m s) t ! i = reverse (reverse m t) s ! i"
    using assms i b
    by (auto simp: nth_reverse length_reverse in_bounds_def disjoint_def)
qed

lemma load_reverse_same:
  assumes "in_bounds m s"
  shows "load (reverse m s) s = rev (load m s)"
  using assms
  by (simp add: reverse_eq load_def in_bounds_def)

lemma load_reverse_other:
  assumes "in_bounds m s" "in_bounds m t" "disjoint s t"
  shows "load (reverse m s) t = load m t"
proof (rule nth_equalityI)
  show "length (load (reverse m s) t) = length (load m t)"
    using assms by (simp add: length_load in_bounds_reverse)
next
  fix j assume "j < length (load (reverse m s) t)"
  then have j: "j < len t" using assms by (simp add: length_load in_bounds_reverse)
  have b: "in_bounds (reverse m s) t" using assms by (simp add: in_bounds_reverse)
  have k: "off t + j < length m" using j assms by (simp add: in_bounds_def)
  have "load (reverse m s) t ! j = reverse m s ! (off t + j)"
    using b j by (rule nth_load)
  also have "\<dots> = m ! (off t + j)"
    using assms j k by (auto simp: nth_reverse disjoint_def)
  also have "\<dots> = load m t ! j"
    using assms j by (simp add: nth_load)
  finally show "load (reverse m s) t ! j = load m t ! j" .
qed

section \<open>The coordinate codec\<close>

lemma copy_from_pad:
  assumes "length xb \<le> 32"
  shows "copy_from (replicate 32 (0::byte)) (32 - int (length xb)) xb
           = Inr (replicate (32 - length xb) 0 @ xb)"
proof -
  have n: "nat (32 - int (length xb)) = 32 - length xb" by simp
  show ?thesis using assms unfolding copy_from_def n
    by (simp add: go_copy_def flip: replicate_add)
qed

lemma copy_from_long:
  assumes "32 < length xb"
  shows "copy_from (replicate 32 (0::byte)) (32 - int (length xb)) xb
           = Inl (Panic ''slice bounds out of range'')"
  using assms by (simp add: copy_from_def)

lemma length_Bytes:
  assumes "0 \<le> x" "x < 2 ^ 256"
  shows "length (Bytes x) \<le> 32"
proof -
  have "nat \<bar>x\<bar> < 2 ^ 256" using assms by (simp add: nat_less_iff)
  also have "(2::nat) ^ 256 = 256 ^ 32" by simp
  finally show ?thesis unfolding Bytes_def by (rule length_be_bytes)
qed

lemma SetBytes_Bytes: "0 \<le> x \<Longrightarrow> SetBytes (Bytes x) = x"
  by (simp add: Bytes_def SetBytes_be_bytes)

lemma marshalPublicKey_value:
  assumes "0 \<le> X pub" "X pub < 2 ^ 256" "0 \<le> Y pub" "Y pub < 2 ^ 256"
  shows "marshalPublicKey pub =
           Inr (rev (replicate (32 - length (Bytes (X pub))) 0 @ Bytes (X pub)),
                rev (replicate (32 - length (Bytes (Y pub))) 0 @ Bytes (Y pub)))"
  using length_Bytes [OF assms(1,2)] length_Bytes [OF assms(3,4)]
  by (simp add: marshalPublicKey_def Let_def copy_from_pad reverse_whole)

lemma unmarshalPublicKey_disjoint:
  assumes "in_bounds m xb" "in_bounds m yb" "disjoint xb yb"
  shows "unmarshalPublicKey m xb yb =
           (\<lparr>Curve = P256, X = SetBytes (rev (load m xb)), Y = SetBytes (rev (load m yb))\<rparr>, m)"
proof -
  have d': "disjoint yb xb" using assms(3) by (auto simp: disjoint_def)
  let ?m1 = "reverse m xb"
  let ?m2 = "reverse ?m1 yb"
  have b1: "in_bounds ?m1 xb" "in_bounds ?m1 yb"
    using assms by (simp_all add: in_bounds_reverse)
  have b2: "in_bounds ?m2 xb" "in_bounds ?m2 yb"
    using b1 by (simp_all add: in_bounds_reverse)
  have x: "load ?m2 xb = rev (load m xb)"
    using b1 d' assms by (simp add: load_reverse_other load_reverse_same)
  have y: "load ?m2 yb = rev (load m yb)"
    using b1 assms by (simp add: load_reverse_other load_reverse_same)
  have "reverse (reverse ?m2 xb) yb = reverse (reverse ?m2 yb) xb"
    using b2 assms(3) by (rule reverse_commute)
  also have "reverse ?m2 yb = ?m1" using b1(2) by (rule reverse_involution)
  also have "reverse ?m1 xb = m" using assms(1) by (rule reverse_involution)
  finally have restored: "reverse (reverse ?m2 xb) yb = m" .
  show ?thesis
    by (simp add: unmarshalPublicKey_def Let_def x y restored)
qed

lemma unmarshalPublicKey_same:
  assumes "in_bounds m xb"
  shows "snd (unmarshalPublicKey m xb xb) = m"
  using assms
  by (simp add: unmarshalPublicKey_def Let_def reverse_involution in_bounds_reverse)

lemma IsOnCurve_bounds: "IsOnCurve x y \<Longrightarrow> 0 \<le> x \<and> x < 2 ^ 256 \<and> 0 \<le> y \<and> y < 2 ^ 256"
  by (simp add: IsOnCurve_def P256_P_def)

text \<open>
  Claim C1. For every point \<open>(x, y)\<close> of P-256, \<open>marshalPublicKey\<close> returns two
  strings of 32 bytes, and \<open>unmarshalPublicKey\<close>, given two slices that hold them
  (two slices of any memory that do not overlap, as the two arrays \<open>marshalPublicKey\<close>
  returns do not), returns a public key with \<open>X = x\<close> and \<open>Y = y\<close>. A coordinate
  whose big-endian encoding is shorter than 32 bytes is one of the cases: the
  hypothesis does not bound the coordinates from below.
\<close>
theorem marshal_unmarshal_roundtrip:
  assumes "IsOnCurve (X pub) (Y pub)"
  shows "\<exists>x32 y32. marshalPublicKey pub = Inr (x32, y32) \<and> length x32 = 32 \<and> length y32 = 32 \<and>
           (\<forall>m xb yb. in_bounds m xb \<and> in_bounds m yb \<and> disjoint xb yb \<and>
                       load m xb = x32 \<and> load m yb = y32 \<longrightarrow>
              X (fst (unmarshalPublicKey m xb yb)) = X pub \<and>
              Y (fst (unmarshalPublicKey m xb yb)) = Y pub)"
proof -
  from IsOnCurve_bounds [OF assms]
  have b: "0 \<le> X pub" "X pub < 2 ^ 256" "0 \<le> Y pub" "Y pub < 2 ^ 256"
    by blast+
  let ?x32 = "rev (replicate (32 - length (Bytes (X pub))) (0::byte) @ Bytes (X pub))"
  let ?y32 = "rev (replicate (32 - length (Bytes (Y pub))) (0::byte) @ Bytes (Y pub))"
  have m: "marshalPublicKey pub = Inr (?x32, ?y32)"
    using b by (rule marshalPublicKey_value)
  have lx: "length ?x32 = 32" using length_Bytes [OF b(1,2)] by simp
  have ly: "length ?y32 = 32" using length_Bytes [OF b(3,4)] by simp
  have dec: "X (fst (unmarshalPublicKey m xb yb)) = X pub \<and>
             Y (fst (unmarshalPublicKey m xb yb)) = Y pub"
    if "in_bounds m xb" "in_bounds m yb" "disjoint xb yb" "load m xb = ?x32" "load m yb = ?y32"
    for m xb yb
    using that b by (simp add: unmarshalPublicKey_disjoint SetBytes_zeros SetBytes_Bytes)
  show ?thesis using m lx ly dec by blast
qed

theorem marshal_unmarshal_roundtrip_witness:
  "IsOnCurve 5 Y5 \<and>
   marshalPublicKey \<lparr>Curve = P256, X = 5, Y = Y5\<rparr> = Inr (x32_5, y32_5) \<and>
   X (fst (unmarshalPublicKey (x32_5 @ y32_5) \<lparr>off = 0, len = 32\<rparr> \<lparr>off = 32, len = 32\<rparr>)) = 5 \<and>
   Y (fst (unmarshalPublicKey (x32_5 @ y32_5) \<lparr>off = 0, len = 32\<rparr> \<lparr>off = 32, len = 32\<rparr>)) = Y5"
proof -
  let ?pub = "\<lparr>Curve = P256, X = 5, Y = Y5\<rparr>"
  let ?xb = "\<lparr>off = 0, len = 32\<rparr>" and ?yb = "\<lparr>off = 32, len = 32\<rparr>"
  have on: "IsOnCurve (X ?pub) (Y ?pub)"
    by (simp add: IsOnCurve_def P256_P_def P256_B_def Y5_def)
  have enc: "marshalPublicKey ?pub = Inr (x32_5, y32_5)"
    by (simp add: marshalPublicKey_def Bytes_def be_bytes.simps Y5_def copy_from_def go_copy_def
          reverse_whole Let_def x32_5_def y32_5_def)
  have mem: "in_bounds (x32_5 @ y32_5) ?xb \<and> in_bounds (x32_5 @ y32_5) ?yb \<and> disjoint ?xb ?yb \<and>
             load (x32_5 @ y32_5) ?xb = x32_5 \<and> load (x32_5 @ y32_5) ?yb = y32_5"
    by (simp add: in_bounds_def disjoint_def load_def x32_5_def y32_5_def)
  from marshal_unmarshal_roundtrip [OF on] enc mem
  have "X (fst (unmarshalPublicKey (x32_5 @ y32_5) ?xb ?yb)) = 5 \<and>
        Y (fst (unmarshalPublicKey (x32_5 @ y32_5) ?xb ?yb)) = Y5"
    by fastforce
  with on enc show ?thesis by simp
qed

text \<open>
  Where \<open>unmarshalPublicKey\<close> does restore the memory: when the two slices do not
  overlap, or are the same slice.
\<close>

lemma unmarshalPublicKey_restores:
  assumes "in_bounds m xb" "in_bounds m yb" "disjoint xb yb \<or> xb = yb"
  shows "snd (unmarshalPublicKey m xb yb) = m \<and>
         load (snd (unmarshalPublicKey m xb yb)) xb = load m xb \<and>
         load (snd (unmarshalPublicKey m xb yb)) yb = load m yb"
proof -
  have "snd (unmarshalPublicKey m xb yb) = m"
    using assms by (auto simp: unmarshalPublicKey_disjoint unmarshalPublicKey_same)
  then show ?thesis by simp
qed

lemma unmarshalPublicKey_restores_example:
  "in_bounds (x32_5 @ y32_5) \<lparr>off = 0, len = 32\<rparr> \<and>
   in_bounds (x32_5 @ y32_5) \<lparr>off = 32, len = 32\<rparr> \<and>
   (disjoint \<lparr>off = 0, len = 32\<rparr> \<lparr>off = 32, len = 32\<rparr>) \<and>
   snd (unmarshalPublicKey (x32_5 @ y32_5) \<lparr>off = 0, len = 32\<rparr> \<lparr>off = 32, len = 32\<rparr>)
     = x32_5 @ y32_5"
proof -
  let ?xb = "\<lparr>off = 0, len = 32\<rparr>" and ?yb = "\<lparr>off = 32, len = 32\<rparr>"
  have a: "in_bounds (x32_5 @ y32_5) ?xb" and b: "in_bounds (x32_5 @ y32_5) ?yb"
    by (simp_all add: in_bounds_def x32_5_def y32_5_def)
  have c: "disjoint ?xb ?yb" by (simp add: disjoint_def)
  then have c': "disjoint ?xb ?yb \<or> ?xb = ?yb" by simp
  from unmarshalPublicKey_restores [OF a b c'] a b c show ?thesis by simp
qed

lemma unmarshalPublicKey_overlap_value:
  "snd (unmarshalPublicKey mem33 \<lparr>off = 0, len = 32\<rparr> \<lparr>off = 1, len = 32\<rparr>) =
  [29, 30, 31, 32, 0, 1, 2, 3, 4, 5, 6, 7, 8, 9, 10, 11, 12, 13, 14, 15, 16, 17, 18, 19, 20, 21, 22, 23, 24, 25, 26, 27, 28]"
  by (simp add: unmarshalPublicKey_def Let_def reverse_eq load_def in_bounds_def mem33_def)

text \<open>
  Undoing the two reversals in the opposite order, \<open>yb\<close> first and then \<open>xb\<close>,
  restores the memory for every two slices, overlapping or not.
\<close>

lemma undo_in_opposite_order_restores:
  assumes "in_bounds m xb" "in_bounds m yb"
  shows "reverse (reverse (reverse (reverse m xb) yb) yb) xb = m"
proof -
  have "in_bounds (reverse m xb) yb" using assms by (simp add: in_bounds_reverse)
  then have "reverse (reverse (reverse m xb) yb) yb = reverse m xb"
    by (rule reverse_involution)
  then show ?thesis using assms(1) by (simp add: reverse_involution)
qed


section \<open>Key exchange and key derivation: properties\<close>

lemma exchange_run:
  assumes "fst (ScalarMult curve (X peer) (Y peer) (Bytes (D mine))) = x" "0 \<le> x" "x < 2 ^ 256"
  shows "exchange curve mine peer = Inr (rev (replicate (32 - length (Bytes x)) 0 @ Bytes x))"
  using assms(1) length_Bytes [OF assms(2,3)]
  by (simp add: exchange_def Let_def copy_from_pad reverse_whole)

lemma length_CMAC: "length (CMAC E msg) = 16"
  by (simp add: CMAC_def Let_def bytes_of_block_def)

lemma cmac_Sum_16: "cmac_Sum msg c aes_BlockSize = Inr (CMAC c msg)"
  by (simp add: cmac_Sum_def aes_BlockSize_def length_CMAC)

lemma kdk_run:
  assumes "exchange curve mine peer = Inr shared"
  shows "kdk aes curve mine peer = Inr (CMAC (aes (replicate 16 0)) shared)"
  using assms by (simp add: kdk_def Let_def aes_NewCipher_def cmac_Sum_16)

lemma keyDerivationString_run: "keyDerivationString label = Inr (1 # label @ [0, 128, 0])"
proof -
  have r: "replicate (4 + length label) (0::byte) = 0 # replicate (length label) 0 @ [0, 0, 0]"
  proof -
    have "4 + length label = 1 + (length label + 3)" by simp
    then have "replicate (4 + length label) (0::byte) = replicate 1 0 @ replicate (length label) 0 @ replicate 3 0"
      by (simp only: replicate_add)
    then show ?thesis by (simp add: numeral_3_eq_3)
  qed
  have c: "copy_from (replicate (4 + length label) (0::byte)) 1 label = Inr (0 # label @ [0, 0, 0])"
    unfolding r by (simp add: copy_from_def go_copy_def)
  have s: "set_index (0 # label @ [0, 0, 0 :: byte]) 0 1 = Inr (1 # label @ [0, 0, 0])"
    by (simp add: set_index_def)
  have n: "nat (int (length (1 # label @ [0, 0, 0 :: byte])) - 2) = Suc (Suc (length label))"
    by simp
  have t: "set_index (1 # label @ [0, 0, 0 :: byte]) (int (length (1 # label @ [0, 0, 0 :: byte])) - 2) 128
             = Inr (1 # label @ [0, 128, 0])"
    unfolding set_index_def n by (simp add: list_update_append)
  show ?thesis
    using t by (simp add: keyDerivationString_def Let_def c s)
qed

lemma Bytes_1: "Bytes 1 = [1]"
  by (simp add: Bytes_def be_bytes.simps)

lemma Bytes_5: "Bytes 5 = [5]"
  by (simp add: Bytes_def be_bytes.simps)

lemma SetBytes_1: "SetBytes [1] = 1"
  by (simp add: SetBytes_def)

lemma pairs_curve_one: "fst (ScalarMult pairs_curve (X peer5) (Y peer5) (Bytes (D keyA))) = 5"
  by (simp add: pairs_curve_def peer5_def keyA_def Bytes_1 SetBytes_1 P256_P_def)

text \<open>
  Claim C2. When the \<open>x\<close>-coordinate of the product is a field element (below
  \<open>2\<^sup>2\<^sup>5\<^sup>6\<close>, as every coordinate of P-256 is), \<open>exchange\<close> returns 32 bytes: the
  big-endian encoding of \<open>x\<close>, padded with zero bytes on the left to 32 bytes and then
  reversed, so that the zero bytes end up behind the reversed encoding. When the
  encoding is shorter than 32 bytes this is not the string that padding after the
  reversal would give.
\<close>
theorem exchange_pads_then_reverses:
  assumes "fst (ScalarMult curve (X peer) (Y peer) (Bytes (D mine))) = x"
    and "0 \<le> x" and "x < 2 ^ 256"
  shows "exchange curve mine peer = Inr (rev (replicate (32 - length (Bytes x)) 0 @ Bytes x)) \<and>
         length (rev (replicate (32 - length (Bytes x)) (0 :: byte) @ Bytes x)) = 32 \<and>
         rev (replicate (32 - length (Bytes x)) (0 :: byte) @ Bytes x) =
           rev (Bytes x) @ replicate (32 - length (Bytes x)) 0 \<and>
         (0 < x \<and> length (Bytes x) < 32 \<longrightarrow>
            rev (replicate (32 - length (Bytes x)) (0 :: byte) @ Bytes x) \<noteq>
              replicate (32 - length (Bytes x)) 0 @ rev (Bytes x))"
proof -
  have d: "rev (replicate (32 - length (Bytes x)) (0 :: byte) @ Bytes x) \<noteq>
             replicate (32 - length (Bytes x)) 0 @ rev (Bytes x)"
    if "0 < x" "length (Bytes x) < 32"
  proof -
    from that(1) have "be_bytes (nat \<bar>x\<bar>) \<noteq> [] \<and> hd (be_bytes (nat \<bar>x\<bar>)) \<noteq> 0"
      by (intro hd_be_bytes) simp
    then have "Bytes x \<noteq> []" "hd (Bytes x) \<noteq> 0" by (simp_all add: Bytes_def)
    moreover have "0 < 32 - length (Bytes x)" using that(2) by simp
    ultimately show ?thesis by (rule pad_after_differs)
  qed
  show ?thesis
    using exchange_run [OF assms] length_Bytes [OF assms(2,3)] d by simp
qed

theorem exchange_pads_then_reverses_witness:
  "fst (ScalarMult pairs_curve (X peer5) (Y peer5) (Bytes (D keyA))) = 5 \<and>
   (0 :: int) \<le> 5 \<and> (5 :: int) < 2 ^ 256 \<and>
   exchange pairs_curve keyA peer5 = Inr (5 # replicate 31 0)"
proof -
  have a: "fst (ScalarMult pairs_curve (X peer5) (Y peer5) (Bytes (D keyA))) = 5"
    by (rule pairs_curve_one)
  have b: "(0 :: int) \<le> 5" and c: "(5 :: int) < 2 ^ 256" by simp_all
  from exchange_pads_then_reverses [OF a b c]
  have "exchange pairs_curve keyA peer5 = Inr (5 # replicate 31 0)"
    by (simp add: Bytes_5)
  with a show ?thesis by simp
qed

text \<open>
  Claim C3. Under the same condition \<open>kdk\<close> returns the CMAC, under AES with the key
  of 16 zero bytes, of the 32 bytes that \<open>exchange\<close> returns for the same keys, and
  this key has 16 bytes; neither call of \<open>log.Fatal\<close> is reached.
\<close>
theorem kdk_is_cmac_of_exchange:
  assumes "fst (ScalarMult curve (X peer) (Y peer) (Bytes (D mine))) = x"
    and "0 \<le> x" and "x < 2 ^ 256"
  shows "\<exists>shared. exchange curve mine peer = Inr shared \<and> length shared = 32 \<and>
           kdk aes curve mine peer = Inr (CMAC (aes (replicate 16 0)) shared) \<and>
           length (CMAC (aes (replicate 16 0)) shared) = 16"
proof -
  let ?shared = "rev (replicate (32 - length (Bytes x)) (0 :: byte) @ Bytes x)"
  have e: "exchange curve mine peer = Inr ?shared" using assms by (rule exchange_run)
  have l: "length ?shared = 32" using length_Bytes [OF assms(2,3)] by simp
  from e have "kdk aes curve mine peer = Inr (CMAC (aes (replicate 16 0)) ?shared)"
    by (rule kdk_run)
  with e l show ?thesis by (simp add: length_CMAC)
qed

theorem kdk_is_cmac_of_exchange_witness:
  "\<forall>aes. fst (ScalarMult pairs_curve (X peer5) (Y peer5) (Bytes (D keyA))) = 5 \<and>
     (0 :: int) \<le> 5 \<and> (5 :: int) < 2 ^ 256 \<and>
     exchange pairs_curve keyA peer5 = Inr (5 # replicate 31 0) \<and>
     kdk aes pairs_curve keyA peer5 = Inr (CMAC (aes (replicate 16 0)) (5 # replicate 31 0)) \<and>
     length (CMAC (aes (replicate 16 0)) (5 # replicate 31 0)) = 16"
proof
  fix aes :: "byte list \<Rightarrow> block \<Rightarrow> block"
  have a: "fst (ScalarMult pairs_curve (X peer5) (Y peer5) (Bytes (D keyA))) = 5"
    by (rule pairs_curve_one)
  have b: "(0 :: int) \<le> 5" and c: "(5 :: int) < 2 ^ 256" by simp_all
  have e: "exchange pairs_curve keyA peer5 = Inr (5 # replicate 31 0)"
    using exchange_run [OF a b c] by (simp add: Bytes_5)
  from kdk_is_cmac_of_exchange [OF a b c, of aes] e
  have "kdk aes pairs_curve keyA peer5 = Inr (CMAC (aes (replicate 16 0)) (5 # replicate 31 0)) \<and>
        length (CMAC (aes (replicate 16 0)) (5 # replicate 31 0)) = 16"
    by auto
  with a e show "fst (ScalarMult pairs_curve (X peer5) (Y peer5) (Bytes (D keyA))) = 5 \<and>
     (0 :: int) \<le> 5 \<and> (5 :: int) < 2 ^ 256 \<and>
     exchange pairs_curve keyA peer5 = Inr (5 # replicate 31 0) \<and>
     kdk aes pairs_curve keyA peer5 = Inr (CMAC (aes (replicate 16 0)) (5 # replicate 31 0)) \<and>
     length (CMAC (aes (replicate 16 0)) (5 # replicate 31 0)) = 16"
    by simp
qed

text \<open>
  Claim C4. The derivation string of a label is \<open>0x01\<close>, the label, \<open>0x00 0x80 0x00\<close>:
  it has \<open>4 + len(label)\<close> bytes, byte 0 is \<open>0x01\<close>, the label follows from byte 1,
  the byte before the last is \<open>0x80\<close> and the last is \<open>0x00\<close>; and for a base key of
  16 bytes \<open>deriveLabelKeyFromBase\<close> returns the CMAC of that string under AES with
  the base key, 16 bytes long.
\<close>
theorem keyDerivationString_layout:
  "\<exists>s. keyDerivationString label = Inr s \<and>
        s = 1 # label @ [0, 128, 0] \<and>
        length s = 4 + length label \<and>
        s ! 0 = 1 \<and>
        take (length label) (drop 1 s) = label \<and>
        s ! (length s - 2) = 128 \<and>
        s ! (length s - 1) = 0 \<and>
        (length base = 16 \<longrightarrow>
           deriveLabelKeyFromBase aes base label = Inr (CMAC (aes base) s) \<and>
           length (CMAC (aes base) s) = 16)"
proof -
  let ?s = "1 # label @ [0, 128, 0 :: byte]"
  have k: "keyDerivationString label = Inr ?s" by (rule keyDerivationString_run)
  have n2: "?s ! (length ?s - 2) = 128"
    by (simp add: nth_append)
  have n1: "?s ! (length ?s - 1) = 0"
    by (simp add: nth_append)
  have d: "length base = 16 \<Longrightarrow> deriveLabelKeyFromBase aes base label = Inr (CMAC (aes base) ?s)"
    by (simp add: deriveLabelKeyFromBase_def aes_NewCipher_def k cmac_Sum_16)
  show ?thesis
    using k n2 n1 d by (intro exI [of _ ?s]) (simp add: length_CMAC)
qed

theorem keyDerivationString_layout_witness:
  "\<forall>aes. length (replicate 16 (0 :: byte)) = 16 \<and>
     keyDerivationString [83, 77, 75] = Inr [1, 83, 77, 75, 0, 128, 0] \<and>
     deriveLabelKeyFromBase aes (replicate 16 0) [83, 77, 75] =
       Inr (CMAC (aes (replicate 16 0)) [1, 83, 77, 75, 0, 128, 0])"
proof
  fix aes :: "byte list \<Rightarrow> block \<Rightarrow> block"
  from keyDerivationString_layout [of "[83, 77, 75]" "replicate 16 0" aes]
  show "length (replicate 16 (0 :: byte)) = 16 \<and>
     keyDerivationString [83, 77, 75] = Inr [1, 83, 77, 75, 0, 128, 0] \<and>
     deriveLabelKeyFromBase aes (replicate 16 0) [83, 77, 75] =
       Inr (CMAC (aes (replicate 16 0)) [1, 83, 77, 75, 0, 128, 0])"
    by auto
qed

section \<open>The session manager: properties\<close>

lemma getSession_absent: "sessions as id' = None \<Longrightarrow> getSession as id' = (None, False)"
  by (simp add: getSession_def)

lemma getSession_present: "sessions as id' = Some session \<Longrightarrow> getSession as id' = (session, True)"
  by (simp add: getSession_def)

lemma snd_getSession: "snd (getSession as id') = (sessions as id' \<noteq> None)"
  by (simp add: getSession_def split: option.splits)

lemma Msg1ToMsg2_unknown:
  "sessions as (Msg1.SessionId msg1) = None \<Longrightarrow>
     Msg1ToMsg2 api as msg1 = (Inl (Err ''Session not found''), as)"
  by (simp add: Msg1ToMsg2_def getSession_absent)

lemma Msg3ToMsg4_unknown:
  "sessions as (Msg3.SessionId msg3) = None \<Longrightarrow>
     Msg3ToMsg4 api as msg3 = (Inl (Err ''Session not found''), as)"
  by (simp add: Msg3ToMsg4_def getSession_absent)

lemma rand_Read_8:
  assumes "length bytes = 8" "rand_Read bytes r = ((8, None), bytes')"
  shows "\<exists>d. r = RandBytes d \<and> 8 \<le> length d \<and> bytes' = take 8 d"
  using assms by (cases r) (auto simp: go_copy_def min_def split: if_splits)

lemma BigEndian_take: "BigEndian_Uint64 (take 8 d) = BigEndian_Uint64 d"
  by (simp add: BigEndian_Uint64_def)

lemma draw_id_Inr:
  assumes "length bytes = 8" "draw_id as bytes rs = Some (Inr id', rs')"
  shows "\<exists>pre d. rs = map RandBytes pre @ RandBytes d # rs' \<and> 8 \<le> length d \<and>
           id' = BigEndian_Uint64 d \<and> sessions as id' = None \<and>
           (\<forall>c \<in> set pre. 8 \<le> length c \<and> sessions as (BigEndian_Uint64 c) \<noteq> None)"
  using assms
proof (induction rs arbitrary: bytes)
  case Nil
  then show ?case by simp
next
  case (Cons r rs)
  obtain n e bytes' where rr: "rand_Read bytes r = ((n, e), bytes')"
    by (metis prod.exhaust)
  from Cons.prems(2) rr have e: "e = None" and n: "n = 8"
    by (auto split: option.splits if_splits)
  from rand_Read_8 [OF Cons.prems(1) rr [unfolded e n]]
  obtain d where d: "r = RandBytes d" "8 \<le> length d" "bytes' = take 8 d" by blast
  show ?case
  proof (cases "snd (getSession as (BigEndian_Uint64 bytes'))")
    case False
    with Cons.prems(2) rr e n have "id' = BigEndian_Uint64 bytes'" "rs' = rs"
      by (simp_all add: Let_def)
    with False d have "r # rs = map RandBytes [] @ RandBytes d # rs' \<and> 8 \<le> length d \<and>
        id' = BigEndian_Uint64 d \<and> sessions as id' = None"
      by (simp add: BigEndian_take snd_getSession)
    then show ?thesis
      by (rule_tac x = "[]" in exI, rule_tac x = d in exI) simp
  next
    case True
    with Cons.prems(2) rr e n have rec: "draw_id as bytes' rs = Some (Inr id', rs')"
      by (simp add: Let_def)
    have l: "length bytes' = 8" using d by simp
    from Cons.IH [OF l rec] obtain pre d' where
      p: "rs = map RandBytes pre @ RandBytes d' # rs'" "8 \<le> length d'"
         "id' = BigEndian_Uint64 d'" "sessions as id' = None"
         "\<forall>c \<in> set pre. 8 \<le> length c \<and> sessions as (BigEndian_Uint64 c) \<noteq> None"
      by blast
    from True d have c: "sessions as (BigEndian_Uint64 d) \<noteq> None"
      by (simp add: BigEndian_take snd_getSession)
    show ?thesis
      using p d c by (rule_tac x = "d # pre" in exI, rule_tac x = d' in exI) simp
  qed
qed

lemma rand_Read_32:
  assumes "rand_Read (replicate 32 0) r = ((32, None), challenge)"
  shows "\<exists>c. r = RandBytes c \<and> 32 \<le> length c \<and> challenge = take 32 c"
  using assms by (cases r) (auto simp: go_copy_def min_def split: if_splits)

lemma NewSession_Inr:
  assumes "SessionManager_NewSession api as rs = Some (Inr ch, as', rs')"
  shows "\<exists>c pre d.
           rs = RandBytes c # map RandBytes pre @ RandBytes d # rs' \<and>
           32 \<le> length c \<and> Challenge ch = take 32 c \<and>
           8 \<le> length d \<and> Challenge.SessionId ch = BigEndian_Uint64 d \<and>
           (\<forall>e \<in> set pre. 8 \<le> length e \<and> sessions as (BigEndian_Uint64 e) \<noteq> None) \<and>
           sessions as (Challenge.SessionId ch) = None \<and>
           as' = as\<lparr>sessions := (sessions as)
                   (Challenge.SessionId ch \<mapsto>
                      Some (NewSession api (mrenclaves as) (Challenge.SessionId ch) (spid as)
                              (longTermKey as) (ias as)))\<rparr>"
proof -
  from assms obtain r rs1 where rs: "rs = r # rs1"
    by (cases rs) (simp_all add: SessionManager_NewSession_def)
  obtain n e challenge where rr: "rand_Read (replicate 32 0) r = ((n, e), challenge)"
    by (metis prod.exhaust)
  from assms rs rr have e: "e = None" and n: "n = 32"
    by (auto simp: SessionManager_NewSession_def split: option.splits if_splits)
  from rand_Read_32 [OF rr [unfolded e n]]
  obtain c where c: "r = RandBytes c" "32 \<le> length c" "challenge = take 32 c" by blast
  from assms rs rr e n obtain id' where
    dr: "draw_id as (replicate 8 0) rs1 = Some (Inr id', rs')" and
    ch: "ch = \<lparr>SessionId = id', Challenge = challenge\<rparr>" and
    as': "as' = as\<lparr>sessions := (sessions as)
                   (id' \<mapsto> Some (NewSession api (mrenclaves as) id' (spid as) (longTermKey as) (ias as)))\<rparr>"
    by (auto simp: SessionManager_NewSession_def split: option.splits sum.splits prod.splits)
  from draw_id_Inr [OF _ dr] obtain pre d where
    p: "rs1 = map RandBytes pre @ RandBytes d # rs'" "8 \<le> length d"
       "id' = BigEndian_Uint64 d" "sessions as id' = None"
       "\<forall>c \<in> set pre. 8 \<le> length c \<and> sessions as (BigEndian_Uint64 c) \<noteq> None"
    by auto
  show ?thesis
    using rs c ch as' p
    by (rule_tac x = c in exI, rule_tac x = pre in exI, rule_tac x = d in exI) simp
qed

lemma NewSession_Inl:
  assumes "SessionManager_NewSession api as rs = Some (Inl e, as', rs')"
  shows "as' = as"
  using assms
  by (auto simp: SessionManager_NewSession_def split: list.splits option.splits sum.splits prod.splits if_splits)

lemma rand_Read_fills_8: "8 \<le> length d \<Longrightarrow> length bytes = 8 \<Longrightarrow> rand_Read bytes (RandBytes d) = ((8, None), take 8 d)"
  by (simp add: go_copy_def min_def)

lemma draw_id_returns:
  assumes "length bytes = 8"
    and "\<forall>e \<in> set pre. 8 \<le> length e \<and> sessions as (BigEndian_Uint64 e) \<noteq> None"
    and "8 \<le> length d" and "sessions as (BigEndian_Uint64 d) = None"
  shows "draw_id as bytes (map RandBytes pre @ RandBytes d # rs') = Some (Inr (BigEndian_Uint64 d), rs')"
  using assms(1,2)
proof (induction pre arbitrary: bytes)
  case Nil
  then show ?case
    using assms(3,4) by (simp add: rand_Read_fills_8 BigEndian_take snd_getSession del: rand_Read.simps)
next
  case (Cons e pre)
  then have "draw_id as (take 8 e) (map RandBytes pre @ RandBytes d # rs') =
               Some (Inr (BigEndian_Uint64 d), rs')"
    by simp
  with Cons.prems show ?case
    by (auto simp: rand_Read_fills_8 BigEndian_take snd_getSession Let_def simp del: rand_Read.simps)
qed

lemma rand_Read_fills_32: "32 \<le> length c \<Longrightarrow> rand_Read (replicate 32 0) (RandBytes c) = ((32, None), take 32 c)"
  by (simp add: go_copy_def min_def)

lemma NewSession_returns:
  assumes "32 \<le> length c"
    and "\<forall>e \<in> set pre. 8 \<le> length e \<and> sessions as (BigEndian_Uint64 e) \<noteq> None"
    and "8 \<le> length d" and "sessions as (BigEndian_Uint64 d) = None"
  shows "SessionManager_NewSession api as (RandBytes c # map RandBytes pre @ RandBytes d # rs') =
           Some (Inr \<lparr>SessionId = BigEndian_Uint64 d, Challenge = take 32 c\<rparr>,
                 as\<lparr>sessions := (sessions as)
                      (BigEndian_Uint64 d \<mapsto>
                         Some (NewSession api (mrenclaves as) (BigEndian_Uint64 d) (spid as)
                                 (longTermKey as) (ias as)))\<rparr>,
                 rs')"
  using assms
  by (simp add: SessionManager_NewSession_def rand_Read_fills_32 draw_id_returns
        del: draw_id.simps rand_Read.simps)

lemma session_ids_all:
  "\<forall>r \<in> set res. \<exists>ch. r = Inr ch \<Longrightarrow> length (session_ids res) = length res"
  by (induction res rule: session_ids.induct) auto

lemma NewSession_dom:
  assumes "SessionManager_NewSession api as rs = Some (r, as', rs')"
  shows "(\<exists>e. r = Inl e \<and> as' = as) \<or>
         (\<exists>ch. r = Inr ch \<and> sessions as (Challenge.SessionId ch) = None \<and>
               dom (sessions as') = insert (Challenge.SessionId ch) (dom (sessions as)) \<and>
               (\<forall>k. k \<noteq> Challenge.SessionId ch \<longrightarrow> sessions as' k = sessions as k))"
proof (cases r)
  case (Inl e)
  with assms have "as' = as" by (simp add: NewSession_Inl)
  with Inl show ?thesis by simp
next
  case (Inr ch)
  from NewSession_Inr [OF assms [unfolded Inr]] Inr show ?thesis by auto
qed

lemma new_sessions_ids:
  assumes "new_sessions api n as rs = Some (res, as', rs')"
  shows "length res = n \<and> distinct (session_ids res) \<and>
         set (session_ids res) \<inter> dom (sessions as) = {} \<and>
         dom (sessions as') = dom (sessions as) \<union> set (session_ids res)"
  using assms
proof (induction n arbitrary: as rs res)
  case 0
  then show ?case by simp
next
  case (Suc n)
  from Suc.prems obtain r as1 rs1 res1 where
    a: "SessionManager_NewSession api as rs = Some (r, as1, rs1)" and
    b: "new_sessions api n as1 rs1 = Some (res1, as', rs')" and
    c: "res = r # res1"
    by (auto split: option.splits prod.splits)
  from Suc.IH [OF b] have ih:
    "length res1 = n" "distinct (session_ids res1)"
    "set (session_ids res1) \<inter> dom (sessions as1) = {}"
    "dom (sessions as') = dom (sessions as1) \<union> set (session_ids res1)"
    by simp_all
  from NewSession_dom [OF a] show ?case
  proof (elim disjE exE conjE)
    fix e assume "r = Inl e" "as1 = as"
    with ih c show ?thesis by simp
  next
    fix ch assume h: "r = Inr ch" "sessions as (Challenge.SessionId ch) = None"
      "dom (sessions as1) = insert (Challenge.SessionId ch) (dom (sessions as))"
    with ih c show ?thesis by auto
  qed
qed

text \<open>
  Claim C7. A call of \<open>NewSession\<close> that returns a challenge has read 32 random
  bytes for the challenge and then ids of 8 random bytes, one after the other, until
  one was not a key of the table; the id it returns is that one, so it differs from
  the id of every session in the table; the new state is the old one with one new
  session stored under that id. Hence the ids that \<open>n\<close> calls in a row return are
  distinct, and none of them was in the table before. Calls that run at the same
  time are outside the model.
\<close>
theorem NewSession_fresh_id:
  "(SessionManager_NewSession api as rs = Some (Inr ch, as', rs') \<longrightarrow>
      (\<exists>c pre d.
         rs = RandBytes c # map RandBytes pre @ RandBytes d # rs' \<and>
         32 \<le> length c \<and> Challenge ch = take 32 c \<and> length (Challenge ch) = 32 \<and>
         8 \<le> length d \<and> Challenge.SessionId ch = BigEndian_Uint64 d \<and>
         (\<forall>e \<in> set pre. 8 \<le> length e \<and> sessions as (BigEndian_Uint64 e) \<noteq> None)) \<and>
      sessions as (Challenge.SessionId ch) = None \<and>
      as' = as\<lparr>sessions := (sessions as)
              (Challenge.SessionId ch \<mapsto>
                 Some (NewSession api (mrenclaves as) (Challenge.SessionId ch) (spid as)
                         (longTermKey as) (ias as)))\<rparr> \<and>
      dom (sessions as') = insert (Challenge.SessionId ch) (dom (sessions as))) \<and>
   (32 \<le> length c0 \<and>
    (\<forall>e \<in> set pre0. 8 \<le> length e \<and> sessions as (BigEndian_Uint64 e) \<noteq> None) \<and>
    8 \<le> length d0 \<and> sessions as (BigEndian_Uint64 d0) = None \<longrightarrow>
      SessionManager_NewSession api as (RandBytes c0 # map RandBytes pre0 @ RandBytes d0 # rs0) =
        Some (Inr \<lparr>SessionId = BigEndian_Uint64 d0, Challenge = take 32 c0\<rparr>,
              as\<lparr>sessions := (sessions as)
                   (BigEndian_Uint64 d0 \<mapsto>
                      Some (NewSession api (mrenclaves as) (BigEndian_Uint64 d0) (spid as)
                              (longTermKey as) (ias as)))\<rparr>,
              rs0)) \<and>
   (new_sessions api n as rs = Some (res, as'', rs'') \<longrightarrow>
      length res = n \<and> distinct (session_ids res) \<and>
      ((\<forall>r \<in> set res. \<exists>ch. r = Inr ch) \<longrightarrow> length (session_ids res) = n) \<and>
      set (session_ids res) \<inter> dom (sessions as) = {} \<and>
      dom (sessions as'') = dom (sessions as) \<union> set (session_ids res))"
proof (intro conjI impI)
  assume a: "SessionManager_NewSession api as rs = Some (Inr ch, as', rs')"
  from NewSession_Inr [OF a] obtain c pre d where
    p: "rs = RandBytes c # map RandBytes pre @ RandBytes d # rs'"
       "32 \<le> length c" "Challenge ch = take 32 c"
       "8 \<le> length d" "Challenge.SessionId ch = BigEndian_Uint64 d"
       "\<forall>e \<in> set pre. 8 \<le> length e \<and> sessions as (BigEndian_Uint64 e) \<noteq> None"
       "sessions as (Challenge.SessionId ch) = None"
       "as' = as\<lparr>sessions := (sessions as)
              (Challenge.SessionId ch \<mapsto>
                 Some (NewSession api (mrenclaves as) (Challenge.SessionId ch) (spid as)
                         (longTermKey as) (ias as)))\<rparr>"
    by blast
  from p(2,3) have l: "length (Challenge ch) = 32" by simp
  show "\<exists>c pre d.
         rs = RandBytes c # map RandBytes pre @ RandBytes d # rs' \<and>
         32 \<le> length c \<and> Challenge ch = take 32 c \<and> length (Challenge ch) = 32 \<and>
         8 \<le> length d \<and> Challenge.SessionId ch = BigEndian_Uint64 d \<and>
         (\<forall>e \<in> set pre. 8 \<le> length e \<and> sessions as (BigEndian_Uint64 e) \<noteq> None)"
    using p l by blast
  show "sessions as (Challenge.SessionId ch) = None" by (rule p(7))
  show "as' = as\<lparr>sessions := (sessions as)
              (Challenge.SessionId ch \<mapsto>
                 Some (NewSession api (mrenclaves as) (Challenge.SessionId ch) (spid as)
                         (longTermKey as) (ias as)))\<rparr>" by (rule p(8))
  then show "dom (sessions as') = insert (Challenge.SessionId ch) (dom (sessions as))"
    by simp
next
  assume "32 \<le> length c0 \<and>
    (\<forall>e \<in> set pre0. 8 \<le> length e \<and> sessions as (BigEndian_Uint64 e) \<noteq> None) \<and>
    8 \<le> length d0 \<and> sessions as (BigEndian_Uint64 d0) = None"
  then show "SessionManager_NewSession api as (RandBytes c0 # map RandBytes pre0 @ RandBytes d0 # rs0) =
        Some (Inr \<lparr>SessionId = BigEndian_Uint64 d0, Challenge = take 32 c0\<rparr>,
              as\<lparr>sessions := (sessions as)
                   (BigEndian_Uint64 d0 \<mapsto>
                      Some (NewSession api (mrenclaves as) (BigEndian_Uint64 d0) (spid as)
                              (longTermKey as) (ias as)))\<rparr>,
              rs0)"
    by (intro NewSession_returns) simp_all
next
  assume b: "new_sessions api n as rs = Some (res, as'', rs'')"
  from new_sessions_ids [OF b]
  show "length res = n" "distinct (session_ids res)"
    "set (session_ids res) \<inter> dom (sessions as) = {}"
    "dom (sessions as'') = dom (sessions as) \<union> set (session_ids res)"
    by simp_all
  then show "length (session_ids res) = n" if "\<forall>r \<in> set res. \<exists>ch. r = Inr ch"
    using that by (simp add: session_ids_all)
qed

lemma BigEndian_Uint64_0: "BigEndian_Uint64 [0, 0, 0, 0, 0, 0, 0, 0] = 0"
  by (simp add: BigEndian_Uint64_def)
lemma BigEndian_Uint64_7: "BigEndian_Uint64 [0, 0, 0, 0, 0, 0, 0, 7] = 7"
  by (simp add: BigEndian_Uint64_def)
lemma BigEndian_Uint64_9: "BigEndian_Uint64 [0, 0, 0, 0, 0, 0, 0, 9] = 9"
  by (simp add: BigEndian_Uint64_def)

lemma replicate_8_unfold: "replicate 8 x = [x, x, x, x, x, x, x, x]"
  by (simp add: numeral_eq_Suc)

lemma sessions_manager0: "sessions (manager0 api) = [0 \<mapsto> None]"
  by (simp add: manager0_def NewSessionManager_def)

lemma draw_id_example_7:
  assumes "sessions as 0 \<noteq> None" "sessions as 7 = None"
  shows "draw_id as (replicate 8 0) (rand_id0 # rand_id7 # rs) = Some (Inr 7, rs)"
  using assms
  by (simp add: replicate_8_unfold rand_id0_def rand_id7_def go_copy_def BigEndian_Uint64_0 BigEndian_Uint64_7 snd_getSession Let_def)

lemma draw_id_example_9:
  assumes "sessions as 7 \<noteq> None" "sessions as 9 = None"
  shows "draw_id as (replicate 8 0) (rand_id7 # rand_id9 # rs) = Some (Inr 9, rs)"
  using assms
  by (simp add: replicate_8_unfold rand_id7_def rand_id9_def go_copy_def BigEndian_Uint64_7 BigEndian_Uint64_9 snd_getSession Let_def)

lemma length_y32_5: "length y32_5 = 32"
  by (simp add: y32_5_def)

lemma length_x32_5: "length x32_5 = 32"
  by (simp add: x32_5_def)

lemma rand_Read_exactly_32: "length c = 32 \<Longrightarrow> rand_Read (replicate 32 0) (RandBytes c) = ((32, None), c)"
  by (simp add: go_copy_def)

lemma NewSession_example_7:
  "SessionManager_NewSession api (manager0 api) (RandBytes y32_5 # rand_id0 # rand_id7 # rs) =
     Some (Inr \<lparr>SessionId = 7, Challenge = y32_5\<rparr>,
           (manager0 api)\<lparr>sessions := (sessions (manager0 api))
              (7 \<mapsto> Some (NewSession api (mrenclaves (manager0 api)) 7 (spid (manager0 api))
                              (longTermKey (manager0 api)) (ias (manager0 api))))\<rparr>,
           rs)"
  by (simp add: SessionManager_NewSession_def rand_Read_exactly_32 length_y32_5 draw_id_example_7 sessions_manager0
        del: draw_id.simps rand_Read.simps)

lemma NewSession_example_9:
  assumes "sessions as 7 \<noteq> None" "sessions as 9 = None"
  shows "SessionManager_NewSession api as (RandBytes x32_5 # rand_id7 # rand_id9 # rs) =
     Some (Inr \<lparr>SessionId = 9, Challenge = x32_5\<rparr>,
           as\<lparr>sessions := (sessions as)
              (9 \<mapsto> Some (NewSession api (mrenclaves as) 9 (spid as) (longTermKey as) (ias as)))\<rparr>,
           rs)"
  using assms
  by (simp add: SessionManager_NewSession_def rand_Read_exactly_32 length_x32_5 draw_id_example_9
        del: draw_id.simps rand_Read.simps)

lemma new_sessions_example:
  "\<exists>as2. new_sessions api 2 (manager0 api)
     [RandBytes y32_5, rand_id0, rand_id7, RandBytes x32_5, rand_id7, rand_id9] =
   Some ([Inr \<lparr>SessionId = 7, Challenge = y32_5\<rparr>, Inr \<lparr>SessionId = 9, Challenge = x32_5\<rparr>],
         as2, [])"
proof -
  let ?as1 = "(manager0 api)\<lparr>sessions := (sessions (manager0 api))
              (7 \<mapsto> Some (NewSession api (mrenclaves (manager0 api)) 7 (spid (manager0 api))
                              (longTermKey (manager0 api)) (ias (manager0 api))))\<rparr>"
  have s: "sessions ?as1 7 \<noteq> None" "sessions ?as1 9 = None"
    by (simp_all add: sessions_manager0)
  show ?thesis
    unfolding numeral_2_eq_2 new_sessions.simps NewSession_example_7 
    by (simp add: NewSession_example_9 [OF s] del: new_sessions.simps)
qed

theorem NewSession_fresh_id_witness:
  "\<forall>api :: ('s, 'ias, 'a, 'b, 'm2, 'm4) Session_api. \<exists>as1 as2.
     SessionManager_NewSession api (manager0 api) [RandBytes y32_5, rand_id0, rand_id7] =
       Some (Inr \<lparr>SessionId = 7, Challenge = y32_5\<rparr>, as1, []) \<and>
     sessions (manager0 api) 7 = None \<and>
     length y32_5 = 32 \<and>
     dom (sessions as1) = {0, 7} \<and>
     new_sessions api 2 (manager0 api)
       [RandBytes y32_5, rand_id0, rand_id7, RandBytes x32_5, rand_id7, rand_id9] =
       Some ([Inr \<lparr>SessionId = 7, Challenge = y32_5\<rparr>, Inr \<lparr>SessionId = 9, Challenge = x32_5\<rparr>],
             as2, []) \<and>
     distinct [7, 9 :: uint64] \<and>
     dom (sessions as2) = {0, 7, 9}"
proof
  fix api :: "('s, 'ias, 'a, 'b, 'm2, 'm4) Session_api"
  let ?ch7 = "\<lparr>SessionId = 7, Challenge = y32_5\<rparr>" and ?ch9 = "\<lparr>SessionId = 9, Challenge = x32_5\<rparr>"
  let ?rs3 = "[RandBytes y32_5, rand_id0, rand_id7]"
  let ?rs6 = "[RandBytes y32_5, rand_id0, rand_id7, RandBytes x32_5, rand_id7, rand_id9]"
  obtain as1 where e1: "SessionManager_NewSession api (manager0 api) ?rs3 = Some (Inr ?ch7, as1, [])"
    using NewSession_example_7 [of api "[]"] by blast
  obtain as2 where e2: "new_sessions api 2 (manager0 api) ?rs6 = Some ([Inr ?ch7, Inr ?ch9], as2, [])"
    using new_sessions_example [of api] by blast
  from NewSession_fresh_id [where api = api and as = "manager0 api" and rs = ?rs3 and ch = ?ch7
      and as' = as1 and rs' = "[]"] e1
  have f1: "sessions (manager0 api) 7 = None" "dom (sessions as1) = {0, 7}"
    by (auto simp: sessions_manager0)
  from NewSession_fresh_id [where api = api and as = "manager0 api" and rs = ?rs6 and n = 2
      and res = "[Inr ?ch7, Inr ?ch9]" and as'' = as2 and rs'' = "[]"] e2
  have f2: "distinct (session_ids [Inr ?ch7, Inr ?ch9])"
    "dom (sessions as2) = dom (sessions (manager0 api)) \<union> set (session_ids [Inr ?ch7, Inr ?ch9])"
    by blast+
  from f2 have f3: "distinct [7, 9 :: uint64]" "dom (sessions as2) = {0, 7, 9}"
    by (auto simp: sessions_manager0)
  show "\<exists>as1 as2.
     SessionManager_NewSession api (manager0 api) ?rs3 = Some (Inr ?ch7, as1, []) \<and>
     sessions (manager0 api) 7 = None \<and>
     length y32_5 = 32 \<and>
     dom (sessions as1) = {0, 7} \<and>
     new_sessions api 2 (manager0 api) ?rs6 = Some ([Inr ?ch7, Inr ?ch9], as2, []) \<and>
     distinct [7, 9 :: uint64] \<and>
     dom (sessions as2) = {0, 7, 9}"
    using e1 e2 f1 f3 length_y32_5 by blast
qed

lemma put_same: "sessions as id' = Some session \<Longrightarrow> put as id' session = as"
  by (simp add: put_def fun_upd_idem)

lemma sessions_put: "sessions (put as id' session) = (sessions as)(id' \<mapsto> session)"
  by (simp add: put_def)

lemma Msg1ToMsg2_nil:
  assumes "sessions as (Msg1.SessionId msg1) = Some None"
  shows "Msg1ToMsg2 api as msg1 =
           (case ProcessMsg1 api None msg1 of
              (Some err, f) \<Rightarrow> (Inl err, as)
            | (None, f) \<Rightarrow> (fst (CreateMsg2 api None), as))"
  using assms
  by (simp add: Msg1ToMsg2_def getSession_present put_same split: prod.splits option.splits)

lemma Msg3ToMsg4_nil:
  assumes "sessions as (Msg3.SessionId msg3) = Some None"
  shows "Msg3ToMsg4 api as msg3 =
           (case ProcessMsg3 api None msg3 of
              (Some err, f) \<Rightarrow> (Inl err, as)
            | (None, f) \<Rightarrow> (fst (CreateMsg4 api None), as))"
  using assms
  by (simp add: Msg3ToMsg4_def getSession_present put_same split: prod.splits option.splits)

lemma Msg1ToMsg2_keeps:
  assumes "Msg1ToMsg2 api as msg1 = (r, as')"
  shows "dom (sessions as') = dom (sessions as) \<and>
         (\<forall>k. sessions as k = Some None \<longrightarrow> sessions as' k = Some None)"
proof (cases "sessions as (Msg1.SessionId msg1)")
  case None
  with assms show ?thesis by (simp add: Msg1ToMsg2_unknown)
next
  case (Some session)
  with assms obtain s' where s': "as' = put as (Msg1.SessionId msg1) (map_option s' session)"
    by (auto simp: Msg1ToMsg2_def getSession_present split: prod.splits option.splits)
  show ?thesis using Some by (auto simp: s' sessions_put)
qed

lemma Msg3ToMsg4_keeps:
  assumes "Msg3ToMsg4 api as msg3 = (r, as')"
  shows "dom (sessions as') = dom (sessions as) \<and>
         (\<forall>k. sessions as k = Some None \<longrightarrow> sessions as' k = Some None)"
proof (cases "sessions as (Msg3.SessionId msg3)")
  case None
  with assms show ?thesis by (simp add: Msg3ToMsg4_unknown)
next
  case (Some session)
  with assms obtain s' where s': "as' = put as (Msg3.SessionId msg3) (map_option s' session)"
    by (auto simp: Msg3ToMsg4_def getSession_present split: prod.splits option.splits)
  show ?thesis using Some by (auto simp: s' sessions_put)
qed

lemma NewSession_keeps:
  assumes "SessionManager_NewSession api as rs = Some (r, as', rs')"
  shows "dom (sessions as) \<subseteq> dom (sessions as') \<and>
         (\<forall>k. sessions as k = Some None \<longrightarrow> sessions as' k = Some None)"
  using NewSession_dom [OF assms] by (elim disjE exE conjE) (simp, metis option.distinct(1) subset_insertI)

lemma evolves_keeps:
  assumes "evolves api as as'"
  shows "dom (sessions as) \<subseteq> dom (sessions as') \<and>
         (\<forall>k. sessions as k = Some None \<longrightarrow> sessions as' k = Some None)"
  using assms
proof (induction rule: evolves.induct)
  case start
  show ?case by simp
next
  case (new as1 rs c as2 rs')
  from NewSession_keeps [OF new.hyps(2)] new.IH show ?case by blast
next
  case (msg1 as1 msg1 r2 as2)
  from Msg1ToMsg2_keeps [OF msg1.hyps(2)] msg1.IH show ?case by blast
next
  case (msg3 as1 msg3 r4 as2)
  from Msg3ToMsg4_keeps [OF msg3.hyps(2)] msg3.IH show ?case by blast
qed

lemma reachable_key0: "reachable api as \<Longrightarrow> sessions as 0 = Some None"
proof -
  assume "reachable api as"
  then obtain release iasKey iasPub m s l where
    e: "evolves api (NewSessionManager api release iasKey iasPub m s l) as"
    unfolding reachable_def by blast
  have "sessions (NewSessionManager api release iasKey iasPub m s l) 0 = Some None"
    by (simp add: NewSessionManager_def)
  with evolves_keeps [OF e] show ?thesis by blast
qed

text \<open>
  Claim C9. In every state that the manager can reach, the table holds the key 0 with
  a nil session; \<open>NewSession\<close> never returns the id 0; and a message with the
  session id 0 passes the test of \<open>getSession\<close> and has \<open>ProcessMsg1\<close> (or
  \<open>ProcessMsg3\<close>) called on the nil session: what the dispatch returns is what the
  methods return on a nil receiver, not the error \<open>Session not found\<close>.
\<close>
theorem key0_is_nil_in_reachable_states:
  assumes "reachable api as"
  shows "sessions as 0 = Some None \<and>
         getSession as 0 = (None, True) \<and>
         (\<forall>rs ch as' rs'. SessionManager_NewSession api as rs = Some (Inr ch, as', rs') \<longrightarrow>
            Challenge.SessionId ch \<noteq> 0) \<and>
         (\<forall>msg1. Msg1.SessionId msg1 = 0 \<longrightarrow>
            Msg1ToMsg2 api as msg1 =
              (case ProcessMsg1 api None msg1 of
                 (Some err, f) \<Rightarrow> (Inl err, as)
               | (None, f) \<Rightarrow> (fst (CreateMsg2 api None), as))) \<and>
         (\<forall>msg3. Msg3.SessionId msg3 = 0 \<longrightarrow>
            Msg3ToMsg4 api as msg3 =
              (case ProcessMsg3 api None msg3 of
                 (Some err, f) \<Rightarrow> (Inl err, as)
               | (None, f) \<Rightarrow> (fst (CreateMsg4 api None), as)))"
proof -
  have k: "sessions as 0 = Some None" using assms by (rule reachable_key0)
  have g: "getSession as 0 = (None, True)" using k by (rule getSession_present)
  have n: "Challenge.SessionId ch \<noteq> 0"
    if "SessionManager_NewSession api as rs = Some (Inr ch, as', rs')" for rs ch as' rs'
    using NewSession_Inr [OF that] k by auto
  show ?thesis
    using k g n by (auto simp: Msg1ToMsg2_nil Msg3ToMsg4_nil simp del: split_paired_All)
qed

lemma reachable_manager0: "reachable api (manager0 api)"
  unfolding reachable_def manager0_def by (blast intro: evolves.start)

theorem key0_is_nil_in_reachable_states_witness:
  "\<forall>api :: ('s, 'ias, 'a, 'b, 'm2, 'm4) Session_api. \<exists>as1.
     SessionManager_NewSession api (manager0 api) [RandBytes y32_5, rand_id0, rand_id7] =
       Some (Inr \<lparr>SessionId = 7, Challenge = y32_5\<rparr>, as1, []) \<and>
     reachable api as1 \<and>
     sessions as1 0 = Some None \<and>
     getSession as1 0 = (None, True)"
proof
  fix api :: "('s, 'ias, 'a, 'b, 'm2, 'm4) Session_api"
  obtain as1 where e1: "SessionManager_NewSession api (manager0 api)
      [RandBytes y32_5, rand_id0, rand_id7] = Some (Inr \<lparr>SessionId = 7, Challenge = y32_5\<rparr>, as1, [])"
    using NewSession_example_7 [of api "[]"] by blast
  have "evolves api (manager0 api) as1"
    using evolves.start e1 by (rule evolves.new)
  then have r: "reachable api as1"
    unfolding reachable_def manager0_def by blast
  from key0_is_nil_in_reachable_states [OF r]
  have "sessions as1 0 = Some None" "getSession as1 0 = (None, True)" by blast+
  with e1 r show "\<exists>as1.
     SessionManager_NewSession api (manager0 api) [RandBytes y32_5, rand_id0, rand_id7] =
       Some (Inr \<lparr>SessionId = 7, Challenge = y32_5\<rparr>, as1, []) \<and>
     reachable api as1 \<and>
     sessions as1 0 = Some None \<and>
     getSession as1 0 = (None, True)"
    by blast
qed

text \<open>
  Claim C6 at the id 0, on the manager as \<open>NewSessionManager\<close> returns it: no session
  has the id 0, yet \<open>getSession\<close> answers \<open>(nil, true)\<close> and both dispatches go on to
  call the methods of the session on the nil pointer. For an id that is not a key of
  the table the claim holds (\<open>Msg1ToMsg2_unknown\<close>, \<open>Msg3ToMsg4_unknown\<close>).
\<close>
theorem dispatch_to_id0_is_not_rejected:
  "sessions (manager0 api) 0 = Some None \<and>
   getSession (manager0 api) 0 = (None, True) \<and>
   Msg1ToMsg2 api (manager0 api) \<lparr>Msg1.SessionId = 0\<rparr> =
     (case ProcessMsg1 api None \<lparr>Msg1.SessionId = 0\<rparr> of
        (Some err, f) \<Rightarrow> (Inl err, manager0 api)
      | (None, f) \<Rightarrow> (fst (CreateMsg2 api None), manager0 api)) \<and>
   Msg3ToMsg4 api (manager0 api) \<lparr>Msg3.SessionId = 0\<rparr> =
     (case ProcessMsg3 api None \<lparr>Msg3.SessionId = 0\<rparr> of
        (Some err, f) \<Rightarrow> (Inl err, manager0 api)
      | (None, f) \<Rightarrow> (fst (CreateMsg4 api None), manager0 api))"
  by (simp add: sessions_manager0 getSession_present Msg1ToMsg2_nil Msg3ToMsg4_nil)

text \<open>
  Claim C8. No call of the manager removes a key from the table: a session that is in
  the table stays in it, and stays found by \<open>getSession\<close>, whatever calls follow and
  however many sessions are made. \<open>NewSessionManager\<close> takes neither
  \<open>MaxSessions\<close> nor \<open>Timeout\<close>, and the manager keeps no time.
\<close>
theorem sessions_are_never_removed:
  assumes "evolves api as as'" and "sessions as id' \<noteq> None"
  shows "sessions as' id' \<noteq> None \<and> snd (getSession as' id') \<and>
         dom (sessions as) \<subseteq> dom (sessions as')"
  using evolves_keeps [OF assms(1)] assms(2) by (auto simp: snd_getSession)

theorem sessions_are_never_removed_witness:
  "\<forall>api :: ('s, 'ias, 'a, 'b, 'm2, 'm4) Session_api. \<exists>as1 as2.
     SessionManager_NewSession api (manager0 api) [RandBytes y32_5, rand_id0, rand_id7] =
       Some (Inr \<lparr>SessionId = 7, Challenge = y32_5\<rparr>, as1, []) \<and>
     SessionManager_NewSession api as1 [RandBytes x32_5, rand_id7, rand_id9] =
       Some (Inr \<lparr>SessionId = 9, Challenge = x32_5\<rparr>, as2, []) \<and>
     evolves api as1 as2 \<and>
     sessions as1 7 \<noteq> None \<and>
     snd (getSession as2 7) \<and>
     snd (getSession as2 9) \<and>
     dom (sessions as2) = {0, 7, 9}"
proof
  fix api :: "('s, 'ias, 'a, 'b, 'm2, 'm4) Session_api"
  let ?as1 = "(manager0 api)\<lparr>sessions := (sessions (manager0 api))
              (7 \<mapsto> Some (NewSession api (mrenclaves (manager0 api)) 7 (spid (manager0 api))
                              (longTermKey (manager0 api)) (ias (manager0 api))))\<rparr>"
  let ?as2 = "?as1\<lparr>sessions := (sessions ?as1)
              (9 \<mapsto> Some (NewSession api (mrenclaves ?as1) 9 (spid ?as1)
                              (longTermKey ?as1) (ias ?as1)))\<rparr>"
  have e1: "SessionManager_NewSession api (manager0 api) [RandBytes y32_5, rand_id0, rand_id7] =
       Some (Inr \<lparr>SessionId = 7, Challenge = y32_5\<rparr>, ?as1, [])"
    by (rule NewSession_example_7)
  have s: "sessions ?as1 7 \<noteq> None" "sessions ?as1 9 = None"
    by (simp_all add: sessions_manager0)
  have e2: "SessionManager_NewSession api ?as1 [RandBytes x32_5, rand_id7, rand_id9] =
       Some (Inr \<lparr>SessionId = 9, Challenge = x32_5\<rparr>, ?as2, [])"
    using s by (rule NewSession_example_9)
  have ev: "evolves api ?as1 ?as2"
    using evolves.start e2 by (rule evolves.new)
  from sessions_are_never_removed [OF ev s(1)]
  have k7: "snd (getSession ?as2 7)" by blast
  have k9: "snd (getSession ?as2 9)" by (simp add: snd_getSession)
  have d: "dom (sessions ?as2) = {0, 7, 9}"
    by (auto simp: sessions_manager0)
  show "\<exists>as1 as2.
     SessionManager_NewSession api (manager0 api) [RandBytes y32_5, rand_id0, rand_id7] =
       Some (Inr \<lparr>SessionId = 7, Challenge = y32_5\<rparr>, as1, []) \<and>
     SessionManager_NewSession api as1 [RandBytes x32_5, rand_id7, rand_id9] =
       Some (Inr \<lparr>SessionId = 9, Challenge = x32_5\<rparr>, as2, []) \<and>
     evolves api as1 as2 \<and>
     sessions as1 7 \<noteq> None \<and>
     snd (getSession as2 7) \<and>
     snd (getSession as2 9) \<and>
     dom (sessions as2) = {0, 7, 9}"
    using e1 e2 ev s(1) k7 k9 d by blast
qed

end
